theory Spec2Isabelle
  imports Main
begin

unbundle bit_operations_syntax

section \<open>Errors\<close>

text \<open>
  Every \<^verbatim>\<open>throw new Error(...)\<close> of the modelled code is one constructor:
  \<^item> \<open>DatacenterIdOutOfRange\<close>: 'Datacenter ID must be 0 - 31' (slugify.ts, constructor);
  \<^item> \<open>WorkerIdOutOfRange\<close>: 'Worker ID must be 0 - 31' (slugify.ts, constructor);
  \<^item> \<open>ClockMovedBackwards\<close>: 'Clock moved backwards' (slugify.ts, generate);
  \<^item> \<open>SlugExhausted\<close>: 'Failed to generate unique slug. Please try a different title.'
    (CrawlSite.service.ts, initializeCrawl and modifyCrawl) and 'Failed to generate unique
    slug. Please try again.' (updateCategory);
  \<^item> \<open>NoCategorySlug\<close>: 'Failed to generate slugs for any category. Please try again.'
    (CrawlSite.service.ts, crawlCategory);
  \<^item> \<open>StoreError DuplicateCategorySlug\<close>: 'One or more category slugs already exist for
    this site. Please try again.' (CategoryRepository.createBatch, on \<^verbatim>\<open>ER_DUP_ENTRY\<close>);
  \<^item> \<open>StoreError StoreFailure\<close>: any other error that \<^verbatim>\<open>createBatch\<close> rethrows.
\<close>

datatype store_error = DuplicateCategorySlug | StoreFailure

datatype error =
    DatacenterIdOutOfRange
  | WorkerIdOutOfRange
  | ClockMovedBackwards
  | SlugExhausted
  | NoCategorySlug
  | StoreError store_error

section \<open>The clock\<close>

text \<open>
  \<^verbatim>\<open>Date.now()\<close> is the only source of time. A clock is the sequence of the values
  that the successive calls of \<^verbatim>\<open>Date.now()\<close> return: \<open>clk k\<close> is what call number
  \<open>k\<close> returns (in milliseconds since 1970, an integer). Code that reads the clock takes
  the number of the next call and returns the number after its last call.
\<close>

type_synonym clock = "nat \<Rightarrow> int"

definition Date_now :: "clock \<Rightarrow> nat \<Rightarrow> int \<times> nat" where
  "Date_now clk k = (clk k, Suc k)"

section \<open>Number to string\<close>

text \<open>
  \<^verbatim>\<open>BigInt.prototype.toString()\<close> and \<^verbatim>\<open>Number.prototype.toString(36)\<close> on an integer:
  the digits of the absolute value in the radix, most significant first, with the
  alphabet \<^verbatim>\<open>0-9a-z\<close>, after a minus sign for a negative number.
\<close>

definition digit_char :: "int \<Rightarrow> char" where
  "digit_char d = ''0123456789abcdefghijklmnopqrstuvwxyz'' ! nat d"

function digits :: "int \<Rightarrow> int \<Rightarrow> string" where
  "digits b n =
     (if b < 2 \<or> n < b then [digit_char n] else digits b (n div b) @ [digit_char (n mod b)])"
  by pat_completeness auto
termination
proof (relation "measure (\<lambda>(b, n). nat n)")
  fix b n :: int
  assume "\<not> (b < 2 \<or> n < b)"
  then have "2 \<le> b" "0 < n" by simp_all
  then have "n div b < n" by (simp add: int_div_less_self)
  with \<open>0 < n\<close> show "((b, n div b), (b, n)) \<in> measure (\<lambda>(b, n). nat n)" by simp
qed simp

declare digits.simps [simp del]

definition toString :: "int \<Rightarrow> int \<Rightarrow> string" where
  "toString radix i = (if i < 0 then CHR ''-'' # digits radix (- i) else digits radix i)"

text \<open>
  Reading a decimal string back as an integer (\<^verbatim>\<open>BigInt(s)\<close>), used to state what
  a returned identifier is "as an integer".
\<close>

definition digit_val :: "char \<Rightarrow> int" where
  "digit_val c = of_char c - 48"

definition parse_digits :: "string \<Rightarrow> int" where
  "parse_digits s = foldl (\<lambda>acc c. 10 * acc + digit_val c) 0 s"

definition parseBigInt :: "string \<Rightarrow> int" where
  "parseBigInt s =
     (case s of
        [] \<Rightarrow> 0
      | c # cs \<Rightarrow> if c = CHR ''-'' then - parse_digits cs else parse_digits s)"

section \<open>SnowflakeIdGenerator (utils/slugify.ts, second module)\<close>

text \<open>
  The class constants. JavaScript \<^verbatim>\<open>bigint\<close> is an unbounded integer, so it is \<open>int\<close>;
  \<^verbatim>\<open><<\<close> is \<open>push_bit\<close>, \<^verbatim>\<open>|\<close> is \<open>OR\<close>, \<^verbatim>\<open>&\<close> is \<open>AND\<close>
  (two's complement on unbounded integers in both). The shift amounts are the
  non-negative constants below, hence \<open>nat\<close>.
\<close>

definition epoch :: int where
  "epoch = 1609459200000"

definition datacenterIdBits :: nat where
  "datacenterIdBits = 5"

definition workerIdBits :: nat where
  "workerIdBits = 5"

definition sequenceBits :: nat where
  "sequenceBits = 12"

definition maxDatacenterId :: int where
  "maxDatacenterId = push_bit datacenterIdBits 1 - 1"

definition maxWorkerId :: int where
  "maxWorkerId = push_bit workerIdBits 1 - 1"

definition maxSequence :: int where
  "maxSequence = push_bit sequenceBits 1 - 1"

definition workerIdShift :: nat where
  "workerIdShift = sequenceBits"

definition datacenterIdShift :: nat where
  "datacenterIdShift = sequenceBits + workerIdBits"

definition timestampLeftShift :: nat where
  "timestampLeftShift = sequenceBits + workerIdBits + datacenterIdBits"

text \<open>The mutable and the configured fields of an instance.\<close>

record SnowflakeIdGenerator =
  sequence :: int
  lastTimestamp :: int
  datacenterId :: int
  workerId :: int

text \<open>
  The constructor. Its arguments are JavaScript numbers; the model covers the integers
  among them (the singleton of the module passes the result of \<^verbatim>\<open>parseInt\<close>).
  The datacenter id is checked first.
\<close>

definition new_SnowflakeIdGenerator :: "int \<Rightarrow> int \<Rightarrow> error + SnowflakeIdGenerator" where
  "new_SnowflakeIdGenerator dc w =
     (if dc < 0 \<or> dc > maxDatacenterId then Inl DatacenterIdOutOfRange
      else if w < 0 \<or> w > maxWorkerId then Inl WorkerIdOutOfRange
      else Inr \<lparr>sequence = 0, lastTimestamp = - 1, datacenterId = dc, workerId = w\<rparr>)"

text \<open>\<^verbatim>\<open>currentTimestamp\<close>: \<^verbatim>\<open>BigInt(Date.now())\<close>.\<close>

definition currentTimestamp :: "clock \<Rightarrow> nat \<Rightarrow> int \<times> nat" where
  "currentTimestamp clk k = Date_now clk k"

text \<open>
  \<^verbatim>\<open>waitNextMillis\<close>: read the clock until it shows a value above \<open>lastTs\<close>. The loop
  has no bound: on a clock that never passes \<open>lastTs\<close> it does not return, which is
  the value \<open>None\<close>.
\<close>

partial_function (option) waitNextMillis :: "clock \<Rightarrow> int \<Rightarrow> nat \<Rightarrow> (int \<times> nat) option" where
  "waitNextMillis clk lastTs k =
     (if fst (currentTimestamp clk k) \<le> lastTs
      then waitNextMillis clk lastTs (snd (currentTimestamp clk k))
      else Some (currentTimestamp clk k))"

declare waitNextMillis.simps [code]

text \<open>The assembled identifier of \<^verbatim>\<open>generate\<close> (the expression bound to \<^verbatim>\<open>id\<close>).\<close>

definition assemble :: "SnowflakeIdGenerator \<Rightarrow> int \<Rightarrow> int" where
  "assemble g timestamp =
     push_bit timestampLeftShift (timestamp - epoch)
       OR push_bit datacenterIdShift (datacenterId g)
       OR push_bit workerIdShift (workerId g)
       OR sequence g"

text \<open>
  \<^verbatim>\<open>generate\<close>. The result is \<open>None\<close> when the call does not return (it spins in
  \<^verbatim>\<open>waitNextMillis\<close> for ever); otherwise it is the outcome (the error thrown or the
  decimal string returned), the instance after the call and the number of the next
  clock reading. The throw happens before any field is written.
\<close>

definition generate ::
  "clock \<Rightarrow> SnowflakeIdGenerator \<Rightarrow> nat \<Rightarrow> ((error + string) \<times> SnowflakeIdGenerator \<times> nat) option"
where
  "generate clk g k =
     (let (timestamp, k1) = currentTimestamp clk k in
      if timestamp < lastTimestamp g then Some (Inl ClockMovedBackwards, g, k1)
      else
        let g1 = (if timestamp = lastTimestamp g
                  then g\<lparr>sequence := (sequence g + 1) AND maxSequence\<rparr>
                  else g\<lparr>sequence := 0\<rparr>);
            waited = (if timestamp = lastTimestamp g \<and> sequence g1 = 0
                      then waitNextMillis clk (lastTimestamp g) k1
                      else Some (timestamp, k1))
        in case waited of
             None \<Rightarrow> None
           | Some (timestamp', k2) \<Rightarrow>
               let g2 = g1\<lparr>lastTimestamp := timestamp'\<rparr>
               in Some (Inr (toString 10 (assemble g2 timestamp')), g2, k2))"

text \<open>
  Successive calls of \<^verbatim>\<open>generate\<close> on one instance: the outcomes of \<open>n\<close> calls, in
  the order of the calls. A call that throws leaves the instance as it was and the
  next call is made all the same; a call that does not return ends the run.
\<close>

fun generate_calls ::
  "clock \<Rightarrow> nat \<Rightarrow> SnowflakeIdGenerator \<Rightarrow> nat \<Rightarrow> ((error + string) list \<times> SnowflakeIdGenerator \<times> nat) option"
where
  "generate_calls clk 0 g k = Some ([], g, k)"
| "generate_calls clk (Suc n) g k =
     (case generate clk g k of
        None \<Rightarrow> None
      | Some (r, g', k') \<Rightarrow>
          (case generate_calls clk n g' k' of
             None \<Rightarrow> None
           | Some (rs, g'', k'') \<Rightarrow> Some (r # rs, g'', k'')))"

text \<open>The identifiers among the outcomes, as integers.\<close>

fun returned_ids :: "(error + string) list \<Rightarrow> int list" where
  "returned_ids [] = []"
| "returned_ids (Inl e # rs) = returned_ids rs"
| "returned_ids (Inr s # rs) = parseBigInt s # returned_ids rs"

text \<open>
  The state that the constructor establishes and every call keeps: both ids within
  their five bits and the sequence within its twelve.
\<close>

definition valid_generator :: "SnowflakeIdGenerator \<Rightarrow> bool" where
  "valid_generator g \<longleftrightarrow>
     0 \<le> datacenterId g \<and> datacenterId g \<le> maxDatacenterId \<and>
     0 \<le> workerId g \<and> workerId g \<le> maxWorkerId \<and>
     0 \<le> sequence g \<and> sequence g \<le> maxSequence"

text \<open>The value that \<^verbatim>\<open>generate\<close> assembles from the fields as they are after a call.\<close>

definition issued :: "SnowflakeIdGenerator \<Rightarrow> int" where
  "issued g = assemble g (lastTimestamp g)"

section \<open>Slugs (utils/slugify.ts, first module)\<close>

text \<open>
  Modelled from the spec: the function \<^verbatim>\<open>slugify\<close> of the npm package of that name,
  which utils/slugify.ts imports and which is not under src/. Section 4.2, step 1 of the
  specification describes it: lower case, a restricted character set (here the letters
  and the digits), every run of white space and punctuation collapsed to one separator
  (the \<^verbatim>\<open>replacement\<close> character \<^verbatim>\<open>-\<close> of the call), and no separator at either end.
  The model covers ASCII text and has no transliteration: the package writes words for
  some symbols (\<^verbatim>\<open>and\<close> for \<^verbatim>\<open>&\<close>), the model takes them for punctuation.
\<close>

definition upper_case :: string where
  "upper_case = ''ABCDEFGHIJKLMNOPQRSTUVWXYZ''"

definition lower_case :: string where
  "lower_case = ''abcdefghijklmnopqrstuvwxyz''"

definition is_alnum :: "char \<Rightarrow> bool" where
  "is_alnum c \<longleftrightarrow> c \<in> set upper_case \<or> c \<in> set lower_case \<or> c \<in> set ''0123456789''"

definition to_lower :: "char \<Rightarrow> char" where
  "to_lower c = (case map_of (zip upper_case lower_case) c of Some l \<Rightarrow> l | None \<Rightarrow> c)"

text \<open>
  The words of a text: its maximal runs of letters and digits. Every other character
  (white space, punctuation) separates words.
\<close>

fun split_words :: "string \<Rightarrow> string \<Rightarrow> string list" where
  "split_words w [] = (if w = [] then [] else [w])"
| "split_words w (c # cs) =
     (if is_alnum c then split_words (w @ [c]) cs
      else if w = [] then split_words [] cs else w # split_words [] cs)"

fun join_with :: "string \<Rightarrow> string list \<Rightarrow> string" where
  "join_with sep [] = []"
| "join_with sep [w] = w"
| "join_with sep (w # ws) = w @ sep @ join_with sep ws"

definition slugify_package :: "string \<Rightarrow> string" where
  "slugify_package text = map to_lower (join_with ''-'' (split_words [] text))"

text \<open>
  \<^verbatim>\<open>generateSlug\<close>. Its first argument stands for the imported \<^verbatim>\<open>slugify\<close> with the
  options of the call. The optional \<^verbatim>\<open>suffix\<close> is \<open>None\<close> when it is not passed; the
  test \<^verbatim>\<open>if (suffix)\<close> is false for a missing and for an empty string.
\<close>

definition generateSlug :: "(string \<Rightarrow> string) \<Rightarrow> string \<Rightarrow> string option \<Rightarrow> string" where
  "generateSlug slugify title suffix =
     (let baseSlug = slugify title
      in case suffix of
           None \<Rightarrow> baseSlug
         | Some sfx \<Rightarrow> if sfx \<noteq> [] then baseSlug @ ''-'' @ sfx else baseSlug)"

text \<open>\<^verbatim>\<open>generateUniqueSlug\<close>: the suffix is \<^verbatim>\<open>Date.now().toString(36)\<close>.\<close>

definition generateUniqueSlug ::
  "(string \<Rightarrow> string) \<Rightarrow> clock \<Rightarrow> nat \<Rightarrow> string \<Rightarrow> string \<times> nat"
where
  "generateUniqueSlug slugify clk k title =
     (let (now, k') = Date_now clk k;
          timestamp = toString 36 now
      in (generateSlug slugify title (Some timestamp), k'))"

text \<open>The candidate that \<^verbatim>\<open>generateUniqueSlug\<close> builds at clock reading number \<open>j\<close>.\<close>

definition candidate :: "(string \<Rightarrow> string) \<Rightarrow> clock \<Rightarrow> string \<Rightarrow> nat \<Rightarrow> string" where
  "candidate slugify clk title j = fst (generateUniqueSlug slugify clk j title)"

section \<open>Slug resolution (services/CrawlSite.service.ts)\<close>

text \<open>
  The existence check of the repository (\<^verbatim>\<open>slugExists\<close>, \<^verbatim>\<open>slugExistsExcludingId\<close>,
  \<^verbatim>\<open>slugExistsForSite\<close>, each one \<^verbatim>\<open>SELECT COUNT(*)\<close> on the store). Other requests
  run while this one awaits, so the store may answer differently from one round-trip to
  the next: \<open>ex n s\<close> is the answer to round-trip number \<open>n\<close> of the operation when it
  asks for the slug \<open>s\<close>. The operation keeps the list of the slugs it has asked for,
  one entry for each round-trip; its length numbers the next round-trip. A round-trip
  that fails (a rejected promise) is outside the model.
\<close>

type_synonym existence_check = "nat \<Rightarrow> string \<Rightarrow> bool"

definition maxSlugAttempts :: nat where
  "maxSlugAttempts = 5"

text \<open>
  The loop \<^verbatim>\<open>while (await exists(slug) && slugAttempts < maxSlugAttempts)\<close> with its
  body. The condition awaits the store first and tests the counter after it, so every
  evaluation of the condition is a round-trip, also the one that ends the loop.
\<close>

function slugRetryLoop ::
  "existence_check \<Rightarrow> (string \<Rightarrow> string) \<Rightarrow> clock \<Rightarrow> string \<Rightarrow>
   string \<Rightarrow> nat \<Rightarrow> nat \<Rightarrow> string list \<Rightarrow> string \<times> nat \<times> nat \<times> string list"
where
  "slugRetryLoop ex slugify clk title slug slugAttempts k checked =
     (if ex (length checked) slug \<and> slugAttempts < maxSlugAttempts
      then slugRetryLoop ex slugify clk title
             (fst (generateUniqueSlug slugify clk k title)) (Suc slugAttempts)
             (snd (generateUniqueSlug slugify clk k title)) (checked @ [slug])
      else (slug, slugAttempts, k, checked @ [slug]))"
  by pat_completeness auto
termination
  by (relation "measure (\<lambda>(ex, slugify, clk, title, slug, slugAttempts, k, checked).
        maxSlugAttempts - slugAttempts)") auto

declare slugRetryLoop.simps [simp del]

text \<open>
  Steps 3 and 4 of \<^verbatim>\<open>initializeCrawl\<close> (lines 52 to 64), which \<^verbatim>\<open>modifyCrawl\<close>
  (lines 232 to 247, with \<^verbatim>\<open>slugExistsExcludingId\<close>) and \<^verbatim>\<open>updateCategory\<close> repeat:
  the first candidate, the loop and the throw. Nothing in these methods catches the
  error, so it is what their caller gets. The result is the outcome, the number of the
  next clock reading and the round-trips made. (As the code stands, \<^verbatim>\<open>modifyCrawl\<close>
  does not reach its copy of the block: it first calls \<^verbatim>\<open>validateModifyCrawlData\<close>
  with the title alone, which throws for the missing \<^verbatim>\<open>link_type\<close>.)
\<close>

definition resolveUniqueSlug ::
  "existence_check \<Rightarrow> (string \<Rightarrow> string) \<Rightarrow> clock \<Rightarrow> string \<Rightarrow> nat \<Rightarrow> string list \<Rightarrow>
   (error + string) \<times> nat \<times> string list"
where
  "resolveUniqueSlug ex slugify clk title k checked =
     (let (slug0, k0) = generateUniqueSlug slugify clk k title;
          (slug, slugAttempts, k', checked') =
             slugRetryLoop ex slugify clk title slug0 0 k0 checked
      in if slugAttempts \<ge> maxSlugAttempts then (Inl SlugExhausted, k', checked')
         else (Inr slug, k', checked'))"


section \<open>crawlCategory (services/CrawlSite.service.ts)\<close>

text \<open>
  \<^verbatim>\<open>ICreateCategoryDTO\<close>, \<^verbatim>\<open>ICategoryEntity\<close> without its two dates (the type of the
  entries of \<^verbatim>\<open>categoriesToCreate\<close>), \<^verbatim>\<open>ICategoryResponseDTO\<close> and
  \<^verbatim>\<open>ICreateCategoryResponse\<close>. The fields of the entity and of the response entry carry
  a prefix, since a field name is a constant of the theory.
\<close>

record create_category_dto =
  title_selector :: string
  link_selector :: string

record category =
  cat_id :: string
  cat_site_id :: string
  cat_title :: string
  cat_slug :: string
  cat_title_selector :: string
  cat_link_selector :: string

record category_response_dto =
  dto_id :: string
  dto_title :: string
  dto_slug :: string
  dto_title_selector :: string
  dto_link_selector :: string

record create_category_response =
  site_id :: string
  total_created :: nat
  categories :: "category_response_dto list"

text \<open>\<^verbatim>\<open>String.prototype.trim\<close>, on ASCII white space.\<close>

definition is_space :: "char \<Rightarrow> bool" where
  "is_space c \<longleftrightarrow> c \<in> set [CHR '' '', CHR 0x09, CHR 0x0A, CHR 0x0B, CHR 0x0C, CHR 0x0D]"

definition trim :: "string \<Rightarrow> string" where
  "trim s = rev (dropWhile is_space (rev (dropWhile is_space s)))"

text \<open>
  What the operation changes outside its own variables: the singleton
  \<^verbatim>\<open>snowflakeGenerator\<close>, the number of the next clock reading, the existence
  round-trips made so far and the lines written with \<^verbatim>\<open>console.warn\<close>.
\<close>

record world =
  generator :: SnowflakeIdGenerator
  clock_pos :: nat
  checked :: "string list"
  console :: "string list"

definition skip_warning :: "string \<Rightarrow> string" where
  "skip_warning title =
     ''Failed to generate unique slug for '' @ [CHR 0x22] @ title @ [CHR 0x22] @ ''. Skipping...''"

text \<open>
  The loop \<^verbatim>\<open>for (const title of categoryTitles)\<close> of step 4 (lines 578 to 610). When
  the retry budget of a title is used up the loop writes the warning and goes on with
  the next title (\<^verbatim>\<open>continue\<close>). An error thrown by \<^verbatim>\<open>generate\<close> leaves the
  loop and the method; \<open>None\<close> is a call of \<^verbatim>\<open>generate\<close> that does not return.
\<close>

fun categoryLoop ::
  "existence_check \<Rightarrow> (string \<Rightarrow> string) \<Rightarrow> clock \<Rightarrow> string \<Rightarrow> create_category_dto \<Rightarrow>
   string list \<Rightarrow> category list \<Rightarrow> world \<Rightarrow> ((error + category list) \<times> world) option"
where
  "categoryLoop ex slugify clk siteId data [] categoriesToCreate w =
     Some (Inr categoriesToCreate, w)"
| "categoryLoop ex slugify clk siteId data (title # titles) categoriesToCreate w =
     (let (slug0, k0) = generateUniqueSlug slugify clk (clock_pos w) title;
          (slug, slugAttempts, k1, checked1) =
             slugRetryLoop ex slugify clk title slug0 0 k0 (checked w)
      in if slugAttempts \<ge> maxSlugAttempts
         then categoryLoop ex slugify clk siteId data titles categoriesToCreate
                (w\<lparr>clock_pos := k1, checked := checked1,
                   console := console w @ [skip_warning title]\<rparr>)
         else
           (case generate clk (generator w) k1 of
              None \<Rightarrow> None
            | Some (Inl e, g, k2) \<Rightarrow>
                Some (Inl e, w\<lparr>generator := g, clock_pos := k2, checked := checked1\<rparr>)
            | Some (Inr categoryId, g, k2) \<Rightarrow>
                categoryLoop ex slugify clk siteId data titles
                  (categoriesToCreate @
                     [\<lparr>cat_id = categoryId, cat_site_id = siteId, cat_title = title,
                       cat_slug = slug, cat_title_selector = trim (title_selector data),
                       cat_link_selector = trim (link_selector data)\<rparr>])
                  (w\<lparr>generator := g, clock_pos := k2, checked := checked1\<rparr>)))"

definition to_response_dto :: "category \<Rightarrow> category_response_dto" where
  "to_response_dto cat =
     \<lparr>dto_id = cat_id cat, dto_title = cat_title cat, dto_slug = cat_slug cat,
      dto_title_selector = cat_title_selector cat, dto_link_selector = cat_link_selector cat\<rparr>"

text \<open>
  \<^verbatim>\<open>crawlCategory\<close> from step 4 on (lines 575 to 631). Steps 1 to 3 (the site lookup,
  the check of the selectors and the scraping with Puppeteer) either throw or deliver
  \<^verbatim>\<open>categoryTitles\<close>, which is an argument here. \<^verbatim>\<open>createBatch\<close> is the repository's
  batch insert: it returns the rows created or throws.
\<close>

definition crawlCategory ::
  "existence_check \<Rightarrow> (category list \<Rightarrow> store_error + category list) \<Rightarrow> (string \<Rightarrow> string) \<Rightarrow> clock \<Rightarrow>
   string \<Rightarrow> create_category_dto \<Rightarrow> string list \<Rightarrow> world \<Rightarrow>
   ((error + create_category_response) \<times> world) option"
where
  "crawlCategory ex createBatch slugify clk siteId data categoryTitles w =
     (case categoryLoop ex slugify clk siteId data categoryTitles [] w of
        None \<Rightarrow> None
      | Some (Inl e, w') \<Rightarrow> Some (Inl e, w')
      | Some (Inr categoriesToCreate, w') \<Rightarrow>
          if categoriesToCreate = [] then Some (Inl NoCategorySlug, w')
          else
            (case createBatch categoriesToCreate of
               Inl e \<Rightarrow> Some (Inl (StoreError e), w')
             | Inr createdCategories \<Rightarrow>
                 Some (Inr \<lparr>site_id = siteId, total_created = length createdCategories,
                            categories = map to_response_dto createdCategories\<rparr>, w')))"

section \<open>Calendar dates\<close>

text \<open>
  The Gregorian calendar, to say which instant a number of milliseconds since
  1970-01-01T00:00:00Z (the unit of \<^verbatim>\<open>Date.now()\<close>) is: the first instant of a year.
\<close>

definition leap_year :: "int \<Rightarrow> bool" where
  "leap_year y \<longleftrightarrow> (y mod 4 = 0 \<and> y mod 100 \<noteq> 0) \<or> y mod 400 = 0"

definition millis_at_start_of_year :: "int \<Rightarrow> int" where
  "millis_at_start_of_year y =
     86400000 * (\<Sum>y' \<leftarrow> [1970 .. y - 1]. if leap_year y' then 366 else 365)"


section \<open>Lemmas on the identifier generator\<close>

lemmas snowflake_consts =
  epoch_def datacenterIdBits_def workerIdBits_def sequenceBits_def maxDatacenterId_def
  maxWorkerId_def maxSequence_def workerIdShift_def datacenterIdShift_def timestampLeftShift_def

lemma or_low_bits:
  fixes s x :: int
  assumes "0 \<le> s" "s < 2 ^ n"
  shows "push_bit n x OR s = push_bit n x + s"
proof -
  have "take_bit n s = s" using assms by (simp add: take_bit_int_eq_self)
  then have "push_bit n x OR s = concat_bit n s x"
    by (simp add: concat_bit_def or.commute)
  also have "\<dots> = take_bit n s + push_bit n x" by (rule concat_bit_eq)
  finally show ?thesis using \<open>take_bit n s = s\<close> by simp
qed

lemma assemble_eq:
  assumes "valid_generator g"
  shows "assemble g t =
     (t - epoch) * 2 ^ 22 + datacenterId g * 2 ^ 17 + workerId g * 2 ^ 12 + sequence g"
proof -
  let ?d = "datacenterId g" and ?w = "workerId g" and ?s = "sequence g"
  from assms have d: "0 \<le> ?d" "?d < 2 ^ 5" and w: "0 \<le> ?w" "?w < 2 ^ 5"
    and s: "0 \<le> ?s" "?s < 2 ^ 12"
    by (simp_all add: valid_generator_def snowflake_consts)
  define a where "a = push_bit 5 (t - epoch) OR ?d"
  define b where "b = push_bit 5 a OR ?w"
  have a: "a = push_bit 5 (t - epoch) + ?d"
    unfolding a_def using d by (rule or_low_bits)
  have b: "b = push_bit 5 a + ?w"
    unfolding b_def using w by (rule or_low_bits)
  have c: "push_bit 12 b OR ?s = push_bit 12 b + ?s"
    using s by (rule or_low_bits)
  have "assemble g t = push_bit 12 b OR ?s"
    by (simp add: assemble_def snowflake_consts a_def b_def push_bit_or push_bit_push_bit or.assoc)
  also have "\<dots> = push_bit 12 b + ?s"
    by (rule c)
  also have "\<dots> = (t - epoch) * 2 ^ 22 + ?d * 2 ^ 17 + ?w * 2 ^ 12 + ?s"
    by (simp add: b a push_bit_eq_mult algebra_simps)
  finally show ?thesis .
qed

lemma waitNextMillis_result:
  assumes "waitNextMillis clk lastTs k = Some r"
  shows "lastTs < fst r \<and> k < snd r \<and> fst r = clk (snd r - 1) \<and>
         (\<forall>i. k \<le> i \<and> i < snd r - 1 \<longrightarrow> clk i \<le> lastTs)"
proof (rule waitNextMillis.raw_induct
    [where P = "\<lambda>clk lastTs k r. lastTs < fst r \<and> k < snd r \<and> fst r = clk (snd r - 1) \<and>
         (\<forall>i. k \<le> i \<and> i < snd r - 1 \<longrightarrow> clk i \<le> lastTs)",
     OF _ assms])
  fix wait :: "clock \<Rightarrow> int \<Rightarrow> nat \<Rightarrow> (int \<times> nat) option" and clk lastTs k r
  assume IH: "\<And>clk lastTs k r. wait clk lastTs k = Some r \<Longrightarrow>
      lastTs < fst r \<and> k < snd r \<and> fst r = clk (snd r - 1) \<and>
      (\<forall>i. k \<le> i \<and> i < snd r - 1 \<longrightarrow> clk i \<le> lastTs)"
    and step: "(if fst (currentTimestamp clk k) \<le> lastTs
         then wait clk lastTs (snd (currentTimestamp clk k))
         else Some (currentTimestamp clk k)) = Some r"
  show "lastTs < fst r \<and> k < snd r \<and> fst r = clk (snd r - 1) \<and>
      (\<forall>i. k \<le> i \<and> i < snd r - 1 \<longrightarrow> clk i \<le> lastTs)"
  proof (cases "clk k \<le> lastTs")
    case True
    with step have "wait clk lastTs (Suc k) = Some r"
      by (simp add: currentTimestamp_def Date_now_def)
    from IH [OF this] have *: "lastTs < fst r" "Suc k < snd r" "fst r = clk (snd r - 1)"
      "\<forall>i. Suc k \<le> i \<and> i < snd r - 1 \<longrightarrow> clk i \<le> lastTs"
      by auto
    have "clk i \<le> lastTs" if "k \<le> i" "i < snd r - 1" for i
    proof (cases "i = k")
      case True
      with \<open>clk k \<le> lastTs\<close> show ?thesis by simp
    next
      case False
      with that have "Suc k \<le> i" by simp
      with *(4) that show ?thesis by blast
    qed
    with * show ?thesis by auto
  next
    case False
    with step have "r = (clk k, Suc k)"
      by (simp add: currentTimestamp_def Date_now_def)
    with False show ?thesis by simp
  qed
qed


lemma waitNextMillis_returns:
  assumes "lastTs < clk j" "k \<le> j"
  shows "\<exists>r. waitNextMillis clk lastTs k = Some r"
  using assms
proof (induction "j - k" arbitrary: k)
  case 0
  then have "k = j" by simp
  with 0 show ?case by (subst waitNextMillis.simps) (simp add: currentTimestamp_def Date_now_def)
next
  case (Suc d)
  then have "d = j - Suc k" "Suc k \<le> j" by simp_all
  with Suc have "\<exists>r. waitNextMillis clk lastTs (Suc k) = Some r" by blast
  then show ?case by (subst waitNextMillis.simps) (simp add: currentTimestamp_def Date_now_def)
qed

lemma digit_cases:
  fixes d :: int
  assumes "0 \<le> d" "d < 10"
  shows "d \<in> {0, 1, 2, 3, 4, 5, 6, 7, 8, 9}"
proof -
  from assms have "d = 0 \<or> d = 1 \<or> d = 2 \<or> d = 3 \<or> d = 4 \<or> d = 5 \<or> d = 6 \<or> d = 7 \<or> d = 8 \<or> d = 9"
    by arith
  then show ?thesis by blast
qed

lemma digit_val_digit_char: "0 \<le> d \<Longrightarrow> d < 10 \<Longrightarrow> digit_val (digit_char d) = d"
  using digit_cases [of d] by (auto simp: digit_val_def digit_char_def)

lemma digit_char_not_minus: "0 \<le> d \<Longrightarrow> d < 10 \<Longrightarrow> digit_char d \<noteq> CHR ''-''"
  using digit_cases [of d] by (auto simp: digit_char_def)

lemma parse_digits_snoc: "parse_digits (xs @ [c]) = 10 * parse_digits xs + digit_val c"
  by (simp add: parse_digits_def)

lemma parse_digits_digits: "0 \<le> n \<Longrightarrow> parse_digits (digits 10 n) = n"
proof (induction "10 :: int" n rule: digits.induct)
  case (1 n)
  show ?case
  proof (cases "n < 10")
    case True
    with 1 show ?thesis
      by (subst digits.simps) (simp add: parse_digits_def digit_val_digit_char)
  next
    case False
    with 1 have "parse_digits (digits 10 (n div 10)) = n div 10" by simp
    with False show ?thesis
      by (subst digits.simps) (simp add: parse_digits_snoc digit_val_digit_char)
  qed
qed

lemma digits_hd: "0 \<le> n \<Longrightarrow> \<exists>c cs. digits 10 n = c # cs \<and> c \<noteq> CHR ''-''"
proof (induction "10 :: int" n rule: digits.induct)
  case (1 n)
  show ?case
  proof (cases "n < 10")
    case True
    with 1 show ?thesis
      by (subst digits.simps) (simp add: digit_char_not_minus)
  next
    case False
    from 1 have "0 \<le> n div 10" by simp
    with 1 False obtain c cs where "digits 10 (n div 10) = c # cs" "c \<noteq> CHR ''-''" by auto
    with False show ?thesis
      by (subst digits.simps) simp
  qed
qed

lemma parseBigInt_toString: "parseBigInt (toString 10 i) = i"
proof (cases "i < 0")
  case True
  then show ?thesis
    by (simp add: parseBigInt_def toString_def parse_digits_digits)
next
  case False
  then obtain c cs where "digits 10 i = c # cs" "c \<noteq> CHR ''-''"
    using digits_hd [of i] by auto
  with False parse_digits_digits [of i] show ?thesis
    by (simp add: parseBigInt_def toString_def)
qed

lemma new_valid:
  "new_SnowflakeIdGenerator dc w = Inr g \<Longrightarrow> valid_generator g \<and> datacenterId g = dc \<and> workerId g = w"
  by (auto simp: new_SnowflakeIdGenerator_def valid_generator_def maxSequence_def sequenceBits_def
      split: if_splits)

lemma and_maxSequence_range: "0 \<le> x AND maxSequence \<and> x AND maxSequence \<le> maxSequence"
proof -
  have "0 \<le> maxSequence" by (simp add: maxSequence_def sequenceBits_def)
  then show ?thesis
    by (simp add: AND_upper2)
qed

lemma generate_Inl:
  assumes "generate clk g k = Some (Inl e, g', k')"
  shows "e = ClockMovedBackwards \<and> g' = g \<and> k' = Suc k \<and> clk k < lastTimestamp g"
  using assms
  by (auto simp: generate_def currentTimestamp_def Date_now_def Let_def split: if_splits option.splits)

lemma generate_Inr:
  assumes v: "valid_generator g" and gen: "generate clk g k = Some (Inr s, g', k')"
  shows "valid_generator g' \<and> datacenterId g' = datacenterId g \<and> workerId g' = workerId g \<and>
         s = toString 10 (assemble g' (lastTimestamp g')) \<and>
         k < k' \<and> lastTimestamp g' = clk (k' - 1) \<and>
         (lastTimestamp g < lastTimestamp g' \<and> sequence g' = 0 \<or>
          lastTimestamp g' = lastTimestamp g \<and> lastTimestamp g = clk k \<and> sequence g' = sequence g + 1)"
proof -
  from gen have ge: "lastTimestamp g \<le> clk k"
    by (auto simp: generate_def currentTimestamp_def Date_now_def Let_def split: if_splits)
  show ?thesis
  proof (cases "clk k = lastTimestamp g")
    case False
    with ge gen v show ?thesis
      by (auto simp: generate_def currentTimestamp_def Date_now_def Let_def valid_generator_def maxSequence_def sequenceBits_def)
  next
    case same: True
    show ?thesis
    proof (cases "(sequence g + 1) AND maxSequence = 0")
      case True
      with same gen obtain r where w: "waitNextMillis clk (lastTimestamp g) (Suc k) = Some r"
        and r: "g' = g\<lparr>sequence := 0, lastTimestamp := fst r\<rparr>" "k' = snd r"
          "s = toString 10 (assemble g' (fst r))"
        by (auto simp: generate_def currentTimestamp_def Date_now_def Let_def split: option.splits)
      from waitNextMillis_result [OF w] r v show ?thesis
        by (auto simp: valid_generator_def maxSequence_def sequenceBits_def)
    next
      case False
      from v have "0 \<le> sequence g" "sequence g \<le> 4095"
        by (simp_all add: valid_generator_def maxSequence_def sequenceBits_def)
      moreover have "sequence g \<noteq> 4095"
        using False by (auto simp: maxSequence_def sequenceBits_def)
      ultimately have bounds: "0 \<le> sequence g + 1" "sequence g + 1 < 2 ^ 12" by simp_all
      then have "take_bit 12 (sequence g + 1) = sequence g + 1"
        by (simp add: take_bit_int_eq_self)
      then have "(sequence g + 1) AND maxSequence = sequence g + 1"
        by (simp add: maxSequence_def sequenceBits_def take_bit_eq_mask mask_eq_exp_minus_1)
      with False same gen v bounds show ?thesis
        by (auto simp: generate_def currentTimestamp_def Date_now_def Let_def valid_generator_def maxSequence_def sequenceBits_def)
    qed
  qed
qed

lemma drop_bit_low:
  fixes a r :: int
  assumes "0 \<le> r" "r < 2 ^ n"
  shows "drop_bit n (a * 2 ^ n + r) = a"
  using assms by (simp add: drop_bit_eq_div div_pos_pos_trivial)

lemma take_bit_low:
  fixes a r :: int
  assumes "0 \<le> r" "r < 2 ^ n"
  shows "take_bit n (a * 2 ^ n + r) = r"
  using assms by (simp add: take_bit_eq_mod)

lemma assemble_fields:
  assumes v: "valid_generator g"
  shows "drop_bit 22 (assemble g t) = t - epoch"
    and "take_bit 5 (drop_bit 17 (assemble g t)) = datacenterId g"
    and "take_bit 5 (drop_bit 12 (assemble g t)) = workerId g"
    and "take_bit 12 (assemble g t) = sequence g"
proof -
  let ?d = "datacenterId g" and ?w = "workerId g" and ?s = "sequence g" and ?T = "t - epoch"
  from v have d: "0 \<le> ?d" "?d < 2 ^ 5" and w: "0 \<le> ?w" "?w < 2 ^ 5"
    and s: "0 \<le> ?s" "?s < 2 ^ 12"
    by (simp_all add: valid_generator_def snowflake_consts)
  note eq = assemble_eq [OF v, of t]
  have "assemble g t = ?T * 2 ^ 22 + (?d * 2 ^ 17 + ?w * 2 ^ 12 + ?s)"
    by (simp add: eq)
  moreover have "0 \<le> ?d * 2 ^ 17 + ?w * 2 ^ 12 + ?s" "?d * 2 ^ 17 + ?w * 2 ^ 12 + ?s < 2 ^ 22"
    using d w s by simp_all
  ultimately show "drop_bit 22 (assemble g t) = ?T"
    by (simp only: drop_bit_low)
  have "assemble g t = (?T * 2 ^ 5 + ?d) * 2 ^ 17 + (?w * 2 ^ 12 + ?s)"
    by (simp add: eq algebra_simps)
  moreover have "0 \<le> ?w * 2 ^ 12 + ?s" "?w * 2 ^ 12 + ?s < 2 ^ 17"
    using w s by simp_all
  ultimately have "drop_bit 17 (assemble g t) = ?T * 2 ^ 5 + ?d"
    by (simp only: drop_bit_low)
  then show "take_bit 5 (drop_bit 17 (assemble g t)) = ?d"
    using d by (simp only: take_bit_low)
  have "assemble g t = ((?T * 2 ^ 5 + ?d) * 2 ^ 5 + ?w) * 2 ^ 12 + ?s"
    by (simp add: eq algebra_simps)
  then have "drop_bit 12 (assemble g t) = (?T * 2 ^ 5 + ?d) * 2 ^ 5 + ?w"
    and "take_bit 12 (assemble g t) = ?s"
    using s by (simp_all only: drop_bit_low take_bit_low)
  then show "take_bit 5 (drop_bit 12 (assemble g t)) = ?w"
    and "take_bit 12 (assemble g t) = ?s"
    using w by (simp_all only: take_bit_low)
qed

lemma issued_less:
  assumes "valid_generator g" "valid_generator g'"
    and "datacenterId g' = datacenterId g" "workerId g' = workerId g"
    and "lastTimestamp g < lastTimestamp g' \<or>
         lastTimestamp g' = lastTimestamp g \<and> sequence g < sequence g'"
  shows "issued g < issued g'"
proof -
  from assms(1,2) have s: "0 \<le> sequence g" "sequence g < 2 ^ 12" "0 \<le> sequence g'"
    by (simp_all add: valid_generator_def snowflake_consts)
  from assms(5) show ?thesis
  proof
    assume "lastTimestamp g < lastTimestamp g'"
    then have "(lastTimestamp g - epoch) + 1 \<le> lastTimestamp g' - epoch" by simp
    then have "((lastTimestamp g - epoch) + 1) * 2 ^ 22 \<le> (lastTimestamp g' - epoch) * (2 ^ 22 :: int)"
      by (rule mult_right_mono) simp
    with s assms(3,4) show ?thesis
      by (simp add: issued_def assemble_eq assms(1,2) algebra_simps)
  next
    assume "lastTimestamp g' = lastTimestamp g \<and> sequence g < sequence g'"
    with assms(3,4) show ?thesis
      by (simp add: issued_def assemble_eq assms(1,2))
  qed
qed

lemma generate_Inr_issued:
  assumes "valid_generator g" "generate clk g k = Some (Inr s, g', k')"
  shows "parseBigInt s = issued g'" and "issued g < issued g'"
proof -
  note st = generate_Inr [OF assms]
  from st show "parseBigInt s = issued g'"
    by (simp add: issued_def parseBigInt_toString)
  from st assms(1) show "issued g < issued g'"
    by (intro issued_less) auto
qed

lemma generate_calls_ids:
  assumes "valid_generator g" "generate_calls clk n g k = Some (rs, g', k')"
  shows "sorted_wrt (<) (returned_ids rs) \<and> (\<forall>i \<in> set (returned_ids rs). issued g < i) \<and>
         valid_generator g' \<and> datacenterId g' = datacenterId g \<and> workerId g' = workerId g \<and>
         (\<forall>i \<in> set (returned_ids rs).
            take_bit 5 (drop_bit 17 i) = datacenterId g \<and> take_bit 5 (drop_bit 12 i) = workerId g)"
  using assms
proof (induction n arbitrary: g k rs)
  case 0
  then show ?case by simp
next
  case (Suc n)
  from Suc.prems(2) obtain r g1 k1 rs' where
    step: "generate clk g k = Some (r, g1, k1)" and
    rest: "generate_calls clk n g1 k1 = Some (rs', g', k')" and
    rs: "rs = r # rs'"
    by (auto split: option.splits)
  show ?case
  proof (cases r)
    case (Inl e)
    with step have "g1 = g" by (simp add: generate_Inl)
    with Suc.IH [OF _ rest] Suc.prems(1) Inl rs show ?thesis by simp
  next
    case (Inr s)
    note st = generate_Inr [OF Suc.prems(1) step [unfolded Inr]]
    note iss = generate_Inr_issued [OF Suc.prems(1) step [unfolded Inr]]
    from st have v1: "valid_generator g1" by simp
    note IH = Suc.IH [OF v1 rest]
    have fields: "take_bit 5 (drop_bit 17 (issued g1)) = datacenterId g1"
      "take_bit 5 (drop_bit 12 (issued g1)) = workerId g1"
      by (simp_all add: issued_def assemble_fields [OF v1])
    from IH st iss fields rs Inr show ?thesis
      by (auto simp del: drop_bit_eq_div)
  qed
qed

lemma generate_calls_monotone_clock:
  assumes "valid_generator g" and "\<forall>i j. i \<le> j \<longrightarrow> clk i \<le> clk j"
    and "lastTimestamp g \<le> clk k" and "generate_calls clk n g k = Some (rs, g', k')"
  shows "length (returned_ids rs) = n"
  using assms(1,3,4)
proof (induction n arbitrary: g k rs)
  case 0
  then show ?case by simp
next
  case (Suc n)
  from Suc.prems(3) obtain r g1 k1 rs' where
    step: "generate clk g k = Some (r, g1, k1)" and
    rest: "generate_calls clk n g1 k1 = Some (rs', g', k')" and
    rs: "rs = r # rs'"
    by (auto split: option.splits)
  from step Suc.prems(2) obtain s where r: "r = Inr s"
    by (cases r) (auto dest: generate_Inl)
  note st = generate_Inr [OF Suc.prems(1) step [unfolded r]]
  then have "valid_generator g1" "lastTimestamp g1 = clk (k1 - 1)" by simp_all
  moreover have "clk (k1 - 1) \<le> clk k1" using assms(2) by simp
  ultimately have "length (returned_ids rs') = n"
    using Suc.IH rest by simp
  with rs r show ?case by simp
qed

lemma epoch_date: "millis_at_start_of_year 2021 = epoch"
  by code_simp

lemma waitNextMillis_None:
  assumes "\<forall>j \<ge> k. clk j \<le> lastTs"
  shows "waitNextMillis clk lastTs k = None"
proof (cases "waitNextMillis clk lastTs k")
  case (Some r)
  from waitNextMillis_result [OF Some] have "lastTs < clk (snd r - 1)" "k \<le> snd r - 1"
    by auto
  with assms show ?thesis by (auto simp: not_le [symmetric])
qed simp


section \<open>Claims on the identifier generator\<close>

text \<open>
  Claim C1. Successive calls of \<^verbatim>\<open>generate\<close> on one instance return identifiers that,
  read as integers, are strictly increasing in the order of the calls. The instance is
  any that the constructor and earlier calls can produce (\<open>valid_generator\<close>, see
  \<open>new_valid\<close> and \<open>generate_Inr\<close>). The order needs no assumption on the clock:
  a call that reads a time behind the last one throws and returns no identifier, so
  the claim's runs, on which the clock never decreases, are among those covered (on
  these every call that returns gives an identifier, \<open>generate_calls_monotone_clock\<close>).
\<close>

theorem generate_strictly_increasing:
  assumes "valid_generator g" and "generate_calls clk n g k = Some (rs, g', k')"
  shows "sorted_wrt (<) (returned_ids rs)"
  using generate_calls_ids [OF assms] by simp

theorem generate_strictly_increasing_witness:
  "valid_generator \<lparr>sequence = 0, lastTimestamp = - 1, datacenterId = 1, workerId = 1\<rparr> \<and>
   generate_calls (\<lambda>k. 1609459200010 + int (k div 2)) 4
     \<lparr>sequence = 0, lastTimestamp = - 1, datacenterId = 1, workerId = 1\<rparr> 0 =
   Some ([Inr ''42078208'', Inr ''42078209'', Inr ''46272512'', Inr ''46272513''],
     \<lparr>sequence = 1, lastTimestamp = 1609459200011, datacenterId = 1, workerId = 1\<rparr>, 4) \<and>
   sorted_wrt (<)
     (returned_ids [Inr ''42078208'', Inr ''42078209'', Inr ''46272512'', Inr ''46272513''])"
proof -
  have v: "valid_generator \<lparr>sequence = 0, lastTimestamp = - 1, datacenterId = 1, workerId = 1\<rparr>"
    by code_simp
  have r: "generate_calls (\<lambda>k. 1609459200010 + int (k div 2)) 4
     \<lparr>sequence = 0, lastTimestamp = - 1, datacenterId = 1, workerId = 1\<rparr> 0 =
   Some ([Inr ''42078208'', Inr ''42078209'', Inr ''46272512'', Inr ''46272513''],
     \<lparr>sequence = 1, lastTimestamp = 1609459200011, datacenterId = 1, workerId = 1\<rparr>, 4)"
    by code_simp
  show ?thesis
    by (rule conjI [OF v conjI [OF r generate_strictly_increasing [OF v r]]])
qed

text \<open>
  Claim C2. A call of \<^verbatim>\<open>generate\<close> that reads a time strictly before
  \<^verbatim>\<open>lastTimestamp\<close> throws 'Clock moved backwards': it returns no identifier and
  leaves the instance unchanged.
\<close>

theorem generate_clock_regression:
  assumes "clk k < lastTimestamp g"
  shows "generate clk g k = Some (Inl ClockMovedBackwards, g, Suc k)"
  using assms by (simp add: generate_def currentTimestamp_def Date_now_def)

theorem generate_clock_regression_witness:
  "(1609459200099 :: int) < lastTimestamp \<lparr>sequence = 3, lastTimestamp = 1609459200100, datacenterId = 1, workerId = 1\<rparr> \<and>
   generate (\<lambda>k. 1609459200099) \<lparr>sequence = 3, lastTimestamp = 1609459200100, datacenterId = 1, workerId = 1\<rparr> 0 =
   Some (Inl ClockMovedBackwards, \<lparr>sequence = 3, lastTimestamp = 1609459200100, datacenterId = 1, workerId = 1\<rparr>, Suc 0)"
proof -
  have h: "(\<lambda>k::nat. 1609459200099 :: int) 0 < lastTimestamp \<lparr>sequence = 3, lastTimestamp = 1609459200100, datacenterId = 1, workerId = 1\<rparr>"
    by simp
  from generate_clock_regression [OF h] h show ?thesis by simp
qed

text \<open>
  Claim C6. A call of \<^verbatim>\<open>generate\<close> that reads the millisecond of the previous call
  (\<open>clk k1 = lastTimestamp g1\<close>) while the 12-bit sequence wraps to zero waits for a
  strictly later millisecond: if it returns, it returns an identifier whose timestamp
  field (the bits from \<open>timestampLeftShift\<close> up) is strictly greater than that of the
  previous identifier \<open>s1\<close>, its time is a later reading of the clock, and every reading
  before that one was not above the previous millisecond. It returns exactly when some
  later reading of the clock is above the previous millisecond.
\<close>

theorem sequence_wrap_waits:
  assumes v: "valid_generator g0"
    and prev: "generate clk g0 k0 = Some (Inr s1, g1, k1)"
    and same: "clk k1 = lastTimestamp g1"
    and wrap: "(sequence g1 + 1) AND maxSequence = 0"
  shows "(\<forall>r g2 k2. generate clk g1 k1 = Some (r, g2, k2) \<longrightarrow>
            (\<exists>s2. r = Inr s2 \<and>
               drop_bit timestampLeftShift (parseBigInt s1) < drop_bit timestampLeftShift (parseBigInt s2) \<and>
               lastTimestamp g1 < lastTimestamp g2 \<and> lastTimestamp g2 = clk (k2 - 1) \<and>
               (\<forall>i. k1 \<le> i \<and> i < k2 - 1 \<longrightarrow> clk i \<le> lastTimestamp g1))) \<and>
         ((\<exists>r. generate clk g1 k1 = Some r) \<longleftrightarrow> (\<exists>j > k1. lastTimestamp g1 < clk j))"
proof -
  note st1 = generate_Inr [OF v prev]
  then have v1: "valid_generator g1" by simp
  have ts1: "drop_bit timestampLeftShift (parseBigInt s1) = lastTimestamp g1 - epoch"
    using st1 assemble_fields(1) [OF v1]
    by (simp add: parseBigInt_toString snowflake_consts)
  have gen: "generate clk g1 k1 =
      (case waitNextMillis clk (lastTimestamp g1) (Suc k1) of
         None \<Rightarrow> None
       | Some (t, k2) \<Rightarrow>
           Some (Inr (toString 10 (assemble (g1\<lparr>sequence := 0, lastTimestamp := t\<rparr>) t)),
                 g1\<lparr>sequence := 0, lastTimestamp := t\<rparr>, k2))"
    using same wrap
    by (simp add: generate_def currentTimestamp_def Date_now_def Let_def split: option.splits)
  have first: "\<exists>s2. r = Inr s2 \<and>
        drop_bit timestampLeftShift (parseBigInt s1) < drop_bit timestampLeftShift (parseBigInt s2) \<and>
        lastTimestamp g1 < lastTimestamp g2 \<and> lastTimestamp g2 = clk (k2 - 1) \<and>
        (\<forall>i. k1 \<le> i \<and> i < k2 - 1 \<longrightarrow> clk i \<le> lastTimestamp g1)"
    if g: "generate clk g1 k1 = Some (r, g2, k2)" for r g2 k2
  proof -
    from g gen obtain t where w: "waitNextMillis clk (lastTimestamp g1) (Suc k1) = Some (t, k2)"
      and r: "r = Inr (toString 10 (assemble g2 t))" and g2: "g2 = g1\<lparr>sequence := 0, lastTimestamp := t\<rparr>"
      by (auto split: option.splits)
    from waitNextMillis_result [OF w] have t: "lastTimestamp g1 < t" "Suc k1 < k2" "t = clk (k2 - 1)"
      "\<forall>i. Suc k1 \<le> i \<and> i < k2 - 1 \<longrightarrow> clk i \<le> lastTimestamp g1"
      by auto
    from v1 g2 have v2: "valid_generator g2"
      by (simp add: valid_generator_def maxSequence_def sequenceBits_def)
    have "drop_bit timestampLeftShift (parseBigInt (toString 10 (assemble g2 t))) = t - epoch"
      using assemble_fields(1) [OF v2] by (simp add: parseBigInt_toString snowflake_consts)
    moreover have "clk i \<le> lastTimestamp g1" if "k1 \<le> i" "i < k2 - 1" for i
      using that t(4) same by (cases "i = k1") auto
    ultimately show ?thesis
      using r g2 t ts1 by auto
  qed
  have second: "(\<exists>r. generate clk g1 k1 = Some r) \<longleftrightarrow> (\<exists>j > k1. lastTimestamp g1 < clk j)"
  proof
    assume "\<exists>r. generate clk g1 k1 = Some r"
    with gen obtain r' where w: "waitNextMillis clk (lastTimestamp g1) (Suc k1) = Some r'"
      by (auto split: option.splits)
    from waitNextMillis_result [OF w] have "lastTimestamp g1 < clk (snd r' - 1)" "k1 < snd r' - 1"
      by auto
    then show "\<exists>j > k1. lastTimestamp g1 < clk j" by blast
  next
    assume "\<exists>j > k1. lastTimestamp g1 < clk j"
    then obtain j where "lastTimestamp g1 < clk j" "Suc k1 \<le> j" by auto
    from waitNextMillis_returns [of "lastTimestamp g1" clk j "Suc k1"] this gen show "\<exists>r. generate clk g1 k1 = Some r"
      by (auto split: option.splits)
  qed
  from first second show ?thesis by blast
qed

theorem sequence_wrap_waits_witness:
  "valid_generator \<lparr>sequence = 4094, lastTimestamp = 1609459200007, datacenterId = 1, workerId = 1\<rparr> \<and>
   generate (\<lambda>k. if k < 3 then 1609459200007 else 1609459200008)
     \<lparr>sequence = 4094, lastTimestamp = 1609459200007, datacenterId = 1, workerId = 1\<rparr> 0 =
   Some (Inr ''29499391'',
     \<lparr>sequence = 4095, lastTimestamp = 1609459200007, datacenterId = 1, workerId = 1\<rparr>, 1) \<and>
   (\<lambda>k::nat. if k < 3 then 1609459200007 else 1609459200008 :: int) 1 =
     lastTimestamp \<lparr>sequence = 4095, lastTimestamp = 1609459200007, datacenterId = 1, workerId = 1\<rparr> \<and>
   (sequence \<lparr>sequence = 4095, lastTimestamp = 1609459200007, datacenterId = 1, workerId = 1\<rparr> + 1)
     AND maxSequence = 0 \<and>
   generate (\<lambda>k. if k < 3 then 1609459200007 else 1609459200008)
     \<lparr>sequence = 4095, lastTimestamp = 1609459200007, datacenterId = 1, workerId = 1\<rparr> 1 =
   Some (Inr ''33689600'',
     \<lparr>sequence = 0, lastTimestamp = 1609459200008, datacenterId = 1, workerId = 1\<rparr>, 4) \<and>
   drop_bit timestampLeftShift (parseBigInt ''29499391'')
     < drop_bit timestampLeftShift (parseBigInt ''33689600'')"
  (is "?v \<and> ?prev \<and> ?same \<and> ?wrap \<and> ?next \<and> ?less")
proof -
  have v: ?v by code_simp
  have prev: ?prev by code_simp
  have same: ?same by simp
  have wrap: ?wrap by code_simp
  have nxt: ?next by code_simp
  from sequence_wrap_waits [OF v prev same wrap] nxt have ?less by blast
  with v prev same wrap nxt show ?thesis by blast
qed

text \<open>
  Claim C7. The epoch is 2021-01-01T00:00:00Z. The first call of \<^verbatim>\<open>generate\<close> on a
  new instance with datacenter id 1 and worker id 1 (its sequence starts at 0), at a
  clock reading 10 milliseconds after the epoch, returns the decimal string of a value
  whose low 12 bits are 0, whose next 5 bits are 1, whose next 5 bits are 1 and whose
  remaining bits are 10.
\<close>

theorem first_id_ten_millis_after_epoch:
  assumes "clk k = epoch + 10"
  shows "millis_at_start_of_year 2021 = epoch \<and>
    (\<exists>g0 s g1. new_SnowflakeIdGenerator 1 1 = Inr g0 \<and> sequence g0 = 0 \<and>
       generate clk g0 k = Some (Inr s, g1, Suc k) \<and>
       take_bit sequenceBits (parseBigInt s) = 0 \<and>
       take_bit workerIdBits (drop_bit workerIdShift (parseBigInt s)) = 1 \<and>
       take_bit datacenterIdBits (drop_bit datacenterIdShift (parseBigInt s)) = 1 \<and>
       drop_bit timestampLeftShift (parseBigInt s) = 10 \<and>
       s = ''42078208'')"
proof -
  let ?g0 = "\<lparr>sequence = 0, lastTimestamp = - 1, datacenterId = 1, workerId = 1\<rparr>"
  let ?g1 = "\<lparr>sequence = 0, lastTimestamp = epoch + 10, datacenterId = 1, workerId = 1\<rparr>"
  have new: "new_SnowflakeIdGenerator 1 1 = Inr ?g0"
    by code_simp
  have id: "assemble \<lparr>sequence = 0, lastTimestamp = 1609459200010, datacenterId = 1, workerId = 1\<rparr>
      1609459200010 = 42078208"
    by code_simp
  have str: "toString 10 42078208 = ''42078208''"
    by code_simp
  have gen: "generate clk ?g0 k = Some (Inr ''42078208'', ?g1, Suc k)"
    using assms by (simp add: generate_def currentTimestamp_def Date_now_def Let_def epoch_def id str)
  have val: "parseBigInt ''42078208'' = 42078208"
    by code_simp
  have fields: "take_bit sequenceBits (42078208 :: int) = 0"
    "take_bit workerIdBits (drop_bit workerIdShift (42078208 :: int)) = 1"
    "take_bit datacenterIdBits (drop_bit datacenterIdShift (42078208 :: int)) = 1"
    "drop_bit timestampLeftShift (42078208 :: int) = 10"
    by code_simp+
  from new gen val fields epoch_date show ?thesis
    by (intro conjI exI [of _ ?g0] exI [of _ "''42078208''"] exI [of _ ?g1]) simp_all
qed

theorem first_id_ten_millis_after_epoch_witness:
  "(\<lambda>k::nat. 1609459200010 :: int) 0 = epoch + 10 \<and>
   (millis_at_start_of_year 2021 = epoch \<and>
    (\<exists>g0 s g1. new_SnowflakeIdGenerator 1 1 = Inr g0 \<and> sequence g0 = 0 \<and>
       generate (\<lambda>k. 1609459200010) g0 0 = Some (Inr s, g1, Suc 0) \<and>
       take_bit sequenceBits (parseBigInt s) = 0 \<and>
       take_bit workerIdBits (drop_bit workerIdShift (parseBigInt s)) = 1 \<and>
       take_bit datacenterIdBits (drop_bit datacenterIdShift (parseBigInt s)) = 1 \<and>
       drop_bit timestampLeftShift (parseBigInt s) = 10 \<and>
       s = ''42078208''))"
proof -
  have h: "(\<lambda>k::nat. 1609459200010 :: int) 0 = epoch + 10"
    by (simp add: epoch_def)
  show ?thesis
    by (rule conjI [OF h first_id_ten_millis_after_epoch [OF h]])
qed

text \<open>
  Claim C8. Every identifier that \<^verbatim>\<open>generate\<close> returns on an instance constructed
  with a datacenter id \<open>dc\<close> and a worker id \<open>w\<close> (in range, since the constructor
  returned) decodes to them: bits 17 to 21 are \<open>dc\<close> and bits 12 to 16 are \<open>w\<close>.
\<close>

theorem ids_decode_to_configuration:
  assumes "new_SnowflakeIdGenerator dc w = Inr g0"
    and "generate_calls clk n g0 k = Some (rs, g, k')"
  shows "\<forall>i \<in> set (returned_ids rs).
           take_bit datacenterIdBits (drop_bit datacenterIdShift i) = dc \<and>
           take_bit workerIdBits (drop_bit workerIdShift i) = w"
proof -
  from new_valid [OF assms(1)] have v: "valid_generator g0" and c: "datacenterId g0 = dc" "workerId g0 = w"
    by simp_all
  from generate_calls_ids [OF v assms(2)] c show ?thesis
    by (simp add: snowflake_consts)
qed

theorem ids_decode_to_configuration_witness:
  "new_SnowflakeIdGenerator 3 30 =
     Inr \<lparr>sequence = 0, lastTimestamp = - 1, datacenterId = 3, workerId = 30\<rparr> \<and>
   generate_calls (\<lambda>k. 1609459200020 + int k) 3
     \<lparr>sequence = 0, lastTimestamp = - 1, datacenterId = 3, workerId = 30\<rparr> 0 =
   Some ([Inr ''84402176'', Inr ''88596480'', Inr ''92790784''],
     \<lparr>sequence = 0, lastTimestamp = 1609459200022, datacenterId = 3, workerId = 30\<rparr>, 3) \<and>
   take_bit datacenterIdBits (drop_bit datacenterIdShift (parseBigInt ''88596480'')) = 3 \<and>
   take_bit workerIdBits (drop_bit workerIdShift (parseBigInt ''88596480'')) = 30"
  (is "?new \<and> ?run \<and> ?dec")
proof -
  have new: ?new by code_simp
  have run: ?run by code_simp
  have "parseBigInt ''88596480'' \<in>
      set (returned_ids [Inr ''84402176'', Inr ''88596480'', Inr ''92790784''])"
    by simp
  from bspec [OF ids_decode_to_configuration [OF new run] this] have dec: ?dec .
  show ?thesis
    by (rule conjI [OF new conjI [OF run dec]])
qed

text \<open>
  Claim C9. The constructor throws when the datacenter id or the worker id is negative
  or above \<open>2 ^ 5 - 1 = 31\<close>, and it returns an instance when both are within 0 to 31.
\<close>

theorem constructor_checks_ranges:
  "(dc < 0 \<or> 2 ^ 5 - 1 < dc \<longrightarrow> new_SnowflakeIdGenerator dc w = Inl DatacenterIdOutOfRange) \<and>
   (0 \<le> dc \<and> dc \<le> 2 ^ 5 - 1 \<and> (w < 0 \<or> 2 ^ 5 - 1 < w) \<longrightarrow>
      new_SnowflakeIdGenerator dc w = Inl WorkerIdOutOfRange) \<and>
   (0 \<le> dc \<and> dc \<le> 2 ^ 5 - 1 \<and> 0 \<le> w \<and> w \<le> 2 ^ 5 - 1 \<longrightarrow>
      new_SnowflakeIdGenerator dc w =
        Inr \<lparr>sequence = 0, lastTimestamp = - 1, datacenterId = dc, workerId = w\<rparr>)"
  by (simp add: new_SnowflakeIdGenerator_def snowflake_consts)

theorem constructor_checks_ranges_witness:
  "new_SnowflakeIdGenerator (- 1) 1 = Inl DatacenterIdOutOfRange \<and>
   new_SnowflakeIdGenerator 32 1 = Inl DatacenterIdOutOfRange \<and>
   new_SnowflakeIdGenerator 0 (- 1) = Inl WorkerIdOutOfRange \<and>
   new_SnowflakeIdGenerator 31 32 = Inl WorkerIdOutOfRange \<and>
   new_SnowflakeIdGenerator 0 31 =
     Inr \<lparr>sequence = 0, lastTimestamp = - 1, datacenterId = 0, workerId = 31\<rparr>"
  using constructor_checks_ranges [of "- 1" 1] constructor_checks_ranges [of 32 1]
    constructor_checks_ranges [of 0 "- 1"] constructor_checks_ranges [of 31 32]
    constructor_checks_ranges [of 0 31]
  by simp

section \<open>Lemmas on slug resolution\<close>

lemma digits_not_Nil: "digits b n \<noteq> []"
  by (subst digits.simps) simp

lemma toString_not_Nil: "toString b i \<noteq> []"
  by (simp add: toString_def digits_not_Nil)

lemma generateUniqueSlug_eq:
  "generateUniqueSlug sl clk k title = (sl title @ ''-'' @ toString 36 (clk k), Suc k)"
  by (simp add: generateUniqueSlug_def generateSlug_def Date_now_def toString_not_Nil)

lemma candidate_eq: "candidate sl clk title j = sl title @ ''-'' @ toString 36 (clk j)"
  by (simp add: candidate_def generateUniqueSlug_eq)

lemma slugRetryLoop_retry:
  assumes "ex (length c) s" "a < maxSlugAttempts"
  shows "slugRetryLoop ex sl clk t s a k c =
         slugRetryLoop ex sl clk t (candidate sl clk t k) (Suc a) (Suc k) (c @ [s])"
  using assms by (subst slugRetryLoop.simps) (simp add: candidate_def generateUniqueSlug_eq)

lemma slugRetryLoop_exit:
  assumes "\<not> ex (length c) s \<or> maxSlugAttempts \<le> a"
  shows "slugRetryLoop ex sl clk t s a k c = (s, a, k, c @ [s])"
  using assms by (subst slugRetryLoop.simps) auto

lemma slugRetryLoop_result:
  assumes "slugRetryLoop ex sl clk t s a k c = (s', a', k', c')"
  shows "a \<le> a' \<and> k' = k + (a' - a) \<and> length c' = length c + (a' - a) + 1 \<and>
         take (length c) c' = c \<and> last c' = s' \<and>
         (a \<le> maxSlugAttempts \<longrightarrow> a' \<le> maxSlugAttempts) \<and>
         (a' < maxSlugAttempts \<longrightarrow> \<not> ex (length c' - 1) s')"
  using assms
proof (induction ex sl clk t s a k c rule: slugRetryLoop.induct)
  case (1 ex sl clk t s a k c)
  show ?case
  proof (cases "ex (length c) s \<and> a < maxSlugAttempts")
    case True
    with "1.prems" have rec: "slugRetryLoop ex sl clk t (fst (generateUniqueSlug sl clk k t)) (Suc a)
        (snd (generateUniqueSlug sl clk k t)) (c @ [s]) = (s', a', k', c')"
      by (subst (asm) slugRetryLoop.simps) simp
    note IH = "1.IH" [OF True rec]
    have k: "snd (generateUniqueSlug sl clk k t) = Suc k"
      by (simp add: generateUniqueSlug_eq)
    from IH have 1: "Suc a \<le> a'" by blast
    from IH k have 2: "k' = Suc k + (a' - Suc a)" by simp
    from IH have 3: "length c' = length (c @ [s]) + (a' - Suc a) + 1" by blast
    from IH have 4: "take (length (c @ [s])) c' = c @ [s]" by blast
    from IH have 5: "last c' = s'" by blast
    from IH have 6: "Suc a \<le> maxSlugAttempts \<longrightarrow> a' \<le> maxSlugAttempts" by blast
    from IH have 7: "a' < maxSlugAttempts \<longrightarrow> \<not> ex (length c' - 1) s'" by blast
    from 4 have "take (length c) (take (length (c @ [s])) c') = take (length c) (c @ [s])"
      by simp
    then have 8: "take (length c) c' = c"
      by (simp add: min_def)
    from 1 2 have "k' = k + (a' - a)" by arith
    moreover from 1 3 have "length c' = length c + (a' - a) + 1" by simp
    moreover from True 6 have "a \<le> maxSlugAttempts \<longrightarrow> a' \<le> maxSlugAttempts" by simp
    ultimately show ?thesis using 1 5 7 8 by simp
  next
    case False
    with "1.prems" have "(s', a', k', c') = (s, a, k, c @ [s])"
      by (subst (asm) slugRetryLoop.simps) auto
    with False show ?thesis by auto
  qed
qed

lemma resolveUniqueSlug_unfold:
  "resolveUniqueSlug ex sl clk title k c =
     (case slugRetryLoop ex sl clk title (candidate sl clk title k) 0 (Suc k) c of
        (s, a, k', c') \<Rightarrow>
          if maxSlugAttempts \<le> a then (Inl SlugExhausted, k', c') else (Inr s, k', c'))"
  by (simp add: resolveUniqueSlug_def generateUniqueSlug_eq candidate_eq split: prod.splits)

lemma resolveUniqueSlug_checks:
  assumes "resolveUniqueSlug ex sl clk title k c = (r, k', c')"
  shows "length c < length c' \<and> length c' \<le> length c + 6 \<and> take (length c) c' = c"
proof -
  obtain s a k1 c1 where loop:
    "slugRetryLoop ex sl clk title (candidate sl clk title k) 0 (Suc k) c = (s, a, k1, c1)"
    by (metis prod_cases4)
  from slugRetryLoop_result [OF loop] have "length c1 = length c + a + 1" "a \<le> maxSlugAttempts"
    "take (length c) c1 = c"
    by simp_all
  moreover from assms loop have "c' = c1"
    by (simp add: resolveUniqueSlug_unfold split: if_splits)
  ultimately show ?thesis by (simp add: maxSlugAttempts_def)
qed

lemma resolve_fifth_attempt:
  assumes "ex (length c) (candidate sl clk title k)"
    "ex (length c + 1) (candidate sl clk title (k + 1))"
    "ex (length c + 2) (candidate sl clk title (k + 2))"
    "ex (length c + 3) (candidate sl clk title (k + 3))"
    "\<not> ex (length c + 4) (candidate sl clk title (k + 4))"
  shows "resolveUniqueSlug ex sl clk title k c =
     (Inr (candidate sl clk title (k + 4)), k + 5,
      c @ [candidate sl clk title k, candidate sl clk title (k + 1), candidate sl clk title (k + 2),
           candidate sl clk title (k + 3), candidate sl clk title (k + 4)])"
proof -
  let ?cand = "candidate sl clk title"
  have "slugRetryLoop ex sl clk title (?cand k) 0 (Suc k) c =
      slugRetryLoop ex sl clk title (?cand (k + 4)) 4 (k + 5)
        (c @ [?cand k, ?cand (k + 1), ?cand (k + 2), ?cand (k + 3)])"
    using assms by (simp add: slugRetryLoop_retry maxSlugAttempts_def eval_nat_numeral)
  also have "\<dots> = (?cand (k + 4), 4, k + 5,
      c @ [?cand k, ?cand (k + 1), ?cand (k + 2), ?cand (k + 3), ?cand (k + 4)])"
    using assms by (simp add: slugRetryLoop_exit maxSlugAttempts_def eval_nat_numeral)
  finally show ?thesis
    by (simp add: resolveUniqueSlug_unfold maxSlugAttempts_def)
qed

lemma resolve_exhausted:
  assumes "ex (length c) (candidate sl clk title k)"
    "ex (length c + 1) (candidate sl clk title (k + 1))"
    "ex (length c + 2) (candidate sl clk title (k + 2))"
    "ex (length c + 3) (candidate sl clk title (k + 3))"
    "ex (length c + 4) (candidate sl clk title (k + 4))"
  shows "resolveUniqueSlug ex sl clk title k c =
     (Inl SlugExhausted, k + 6,
      c @ [candidate sl clk title k, candidate sl clk title (k + 1), candidate sl clk title (k + 2),
           candidate sl clk title (k + 3), candidate sl clk title (k + 4),
           candidate sl clk title (k + 5)])"
proof -
  let ?cand = "candidate sl clk title"
  have "slugRetryLoop ex sl clk title (?cand k) 0 (Suc k) c =
      slugRetryLoop ex sl clk title (?cand (k + 5)) 5 (k + 6)
        (c @ [?cand k, ?cand (k + 1), ?cand (k + 2), ?cand (k + 3), ?cand (k + 4)])"
    using assms by (simp add: slugRetryLoop_retry maxSlugAttempts_def eval_nat_numeral)
  also have "\<dots> = (?cand (k + 5), 5, k + 6,
      c @ [?cand k, ?cand (k + 1), ?cand (k + 2), ?cand (k + 3), ?cand (k + 4), ?cand (k + 5)])"
    by (simp add: slugRetryLoop_exit maxSlugAttempts_def eval_nat_numeral)
  finally show ?thesis
    by (simp add: resolveUniqueSlug_unfold maxSlugAttempts_def)
qed

lemma resolve_first_candidate:
  assumes "\<not> ex (length c) (candidate sl clk title k)"
  shows "resolveUniqueSlug ex sl clk title k c =
     (Inr (candidate sl clk title k), Suc k, c @ [candidate sl clk title k])"
  using assms
  by (simp add: resolveUniqueSlug_unfold slugRetryLoop_exit maxSlugAttempts_def)

lemma slugify_package_example: "slugify_package ''Example Site'' = ''example-site''"
  by code_simp


lemma categoryLoop_Cons:
  assumes "slugRetryLoop ex sl clk t (candidate sl clk t (clock_pos w)) 0 (Suc (clock_pos w))
      (checked w) = (s, a, k1, c1)"
  shows "categoryLoop ex sl clk site data (t # ts) acc w =
     (if maxSlugAttempts \<le> a
      then categoryLoop ex sl clk site data ts acc
             (w\<lparr>clock_pos := k1, checked := c1, console := console w @ [skip_warning t]\<rparr>)
      else
        (case generate clk (generator w) k1 of
           None \<Rightarrow> None
         | Some (Inl e, g, k2) \<Rightarrow>
             Some (Inl e, w\<lparr>generator := g, clock_pos := k2, checked := c1\<rparr>)
         | Some (Inr categoryId, g, k2) \<Rightarrow>
             categoryLoop ex sl clk site data ts
               (acc @
                  [\<lparr>cat_id = categoryId, cat_site_id = site, cat_title = t,
                    cat_slug = s, cat_title_selector = trim (title_selector data),
                    cat_link_selector = trim (link_selector data)\<rparr>])
               (w\<lparr>generator := g, clock_pos := k2, checked := c1\<rparr>)))"
  using assms by (simp add: generateUniqueSlug_eq candidate_eq)

lemma categoryLoop_result:
  assumes "categoryLoop ex sl clk site data titles acc w = Some (Inr batch, w')"
  shows "\<exists>new lines more.
     batch = acc @ new \<and> console w' = console w @ lines \<and> checked w' = checked w @ more \<and>
     length new + length lines = length titles \<and>
     set lines \<subseteq> skip_warning ` set titles \<and>
     (\<forall>cat \<in> set new. cat_title cat \<in> set titles \<and>
        (\<exists>n < length (checked w'). checked w' ! n = cat_slug cat \<and> \<not> ex n (cat_slug cat)))"
  using assms
proof (induction titles arbitrary: acc w)
  case Nil
  then show ?case by simp
next
  case (Cons t ts)
  obtain s a k1 c1 where loop:
    "slugRetryLoop ex sl clk t (candidate sl clk t (clock_pos w)) 0 (Suc (clock_pos w))
      (checked w) = (s, a, k1, c1)"
    by (metis prod_cases4)
  note res = slugRetryLoop_result [OF loop]
  from res have pre: "take (length (checked w)) c1 = checked w"
    and last: "last c1 = s"
    and neg: "a < maxSlugAttempts \<longrightarrow> \<not> ex (length c1 - 1) s"
    by blast+
  from res have len: "length c1 = length (checked w) + a + 1"
    by simp
  from pre have c1: "c1 = checked w @ drop (length (checked w)) c1"
    by (metis append_take_drop_id)
  note unfold = categoryLoop_Cons [OF loop, of site data ts acc]
  show ?case
  proof (cases "maxSlugAttempts \<le> a")
    case True
    let ?w1 = "w\<lparr>clock_pos := k1, checked := c1, console := console w @ [skip_warning t]\<rparr>"
    from Cons.prems unfold True
    have "categoryLoop ex sl clk site data ts acc ?w1 = Some (Inr batch, w')" by simp
    from Cons.IH [OF this] obtain new lines more where
      IH: "batch = acc @ new" "console w' = console ?w1 @ lines" "checked w' = checked ?w1 @ more"
        "length new + length lines = length ts" "set lines \<subseteq> skip_warning ` set ts"
        "\<forall>cat \<in> set new. cat_title cat \<in> set ts \<and>
          (\<exists>n < length (checked w'). checked w' ! n = cat_slug cat \<and> \<not> ex n (cat_slug cat))"
      by blast
    have "checked w' = checked w @ (drop (length (checked w)) c1 @ more)"
      using IH(3) c1 by simp
    moreover have "console w' = console w @ (skip_warning t # lines)"
      using IH(2) by simp
    moreover have "length new + length (skip_warning t # lines) = length (t # ts)"
      using IH(4) by simp
    moreover have "set (skip_warning t # lines) \<subseteq> skip_warning ` set (t # ts)"
      using IH(5) by auto
    moreover have "\<forall>cat \<in> set new. cat_title cat \<in> set (t # ts) \<and>
          (\<exists>n < length (checked w'). checked w' ! n = cat_slug cat \<and> \<not> ex n (cat_slug cat))"
      using IH(6) by auto
    ultimately show ?thesis using IH(1) by blast
  next
    case False
    with Cons.prems unfold obtain categoryId g k2 where
      gen: "generate clk (generator w) k1 = Some (Inr categoryId, g, k2)"
      by (auto split: option.splits sum.splits)
    let ?cat = "\<lparr>cat_id = categoryId, cat_site_id = site, cat_title = t,
                    cat_slug = s, cat_title_selector = trim (title_selector data),
                    cat_link_selector = trim (link_selector data)\<rparr>"
    let ?w2 = "w\<lparr>generator := g, clock_pos := k2, checked := c1\<rparr>"
    from Cons.prems unfold False gen
    have "categoryLoop ex sl clk site data ts (acc @ [?cat]) ?w2 = Some (Inr batch, w')" by simp
    from Cons.IH [OF this] obtain new lines more where
      IH: "batch = (acc @ [?cat]) @ new" "console w' = console ?w2 @ lines"
        "checked w' = checked ?w2 @ more"
        "length new + length lines = length ts" "set lines \<subseteq> skip_warning ` set ts"
        "\<forall>cat \<in> set new. cat_title cat \<in> set ts \<and>
          (\<exists>n < length (checked w'). checked w' ! n = cat_slug cat \<and> \<not> ex n (cat_slug cat))"
      by blast
    have w': "checked w' = c1 @ more" using IH(3) by simp
    from len have ne: "c1 \<noteq> []" by auto
    have "length c1 - 1 < length (checked w')"
      using w' ne by (cases c1) simp_all
    moreover have "checked w' ! (length c1 - 1) = s"
      using w' ne last by (simp add: nth_append last_conv_nth)
    moreover have "\<not> ex (length c1 - 1) s"
      using neg False by simp
    ultimately have this_cat: "cat_title ?cat \<in> set (t # ts) \<and>
        (\<exists>n < length (checked w'). checked w' ! n = cat_slug ?cat \<and> \<not> ex n (cat_slug ?cat))"
      by auto
    have "batch = acc @ (?cat # new)" using IH(1) by simp
    moreover have "checked w' = checked w @ (drop (length (checked w)) c1 @ more)"
      using w' c1 by simp
    moreover have "console w' = console w @ lines" using IH(2) by simp
    moreover have "length (?cat # new) + length lines = length (t # ts)"
      using IH(4) by simp
    moreover have "set lines \<subseteq> skip_warning ` set (t # ts)"
      using IH(5) by auto
    moreover have "\<forall>cat \<in> set (?cat # new). cat_title cat \<in> set (t # ts) \<and>
          (\<exists>n < length (checked w'). checked w' ! n = cat_slug cat \<and> \<not> ex n (cat_slug cat))"
      using IH(6) this_cat by auto
    ultimately show ?thesis by blast
  qed
qed

lemma resolveUniqueSlug_outcome:
  assumes "resolveUniqueSlug ex sl clk title k c = (r, k', c')"
  shows "case r of Inl e \<Rightarrow> e = SlugExhausted
         | Inr s \<Rightarrow> last c' = s \<and> \<not> ex (length c' - 1) s"
proof -
  obtain s a k1 c1 where loop:
    "slugRetryLoop ex sl clk title (candidate sl clk title k) 0 (Suc k) c = (s, a, k1, c1)"
    by (metis prod_cases4)
  from slugRetryLoop_result [OF loop] have "last c1 = s"
    "a < maxSlugAttempts \<longrightarrow> \<not> ex (length c1 - 1) s"
    by blast+
  with assms loop show ?thesis
    by (auto simp: resolveUniqueSlug_unfold split: if_splits)
qed

lemma generate_throws_only_clock:
  assumes "generate clk g k = Some (Inl e, g', k')"
  shows "e = ClockMovedBackwards"
  using assms
  by (auto simp: generate_def currentTimestamp_def Date_now_def Let_def split: if_splits option.splits)

lemma categoryLoop_Inl:
  assumes "categoryLoop ex sl clk site data titles acc w = Some (Inl e, w')"
  shows "e = ClockMovedBackwards"
  using assms
proof (induction titles arbitrary: acc w)
  case Nil
  then show ?case by simp
next
  case (Cons t ts)
  obtain s a k1 c1 where loop:
    "slugRetryLoop ex sl clk t (candidate sl clk t (clock_pos w)) 0 (Suc (clock_pos w))
      (checked w) = (s, a, k1, c1)"
    by (metis prod_cases4)
  note unfold = categoryLoop_Cons [OF loop, of site data ts acc]
  show ?case
  proof (cases "maxSlugAttempts \<le> a")
    case True
    with Cons.prems unfold Cons.IH show ?thesis by simp
  next
    case False
    show ?thesis
    proof (cases "generate clk (generator w) k1")
      case None
      with Cons.prems unfold False show ?thesis by simp
    next
      case (Some res)
      obtain r g k2 where res: "res = (r, g, k2)" by (cases res)
      show ?thesis
      proof (cases r)
        case (Inl e')
        with Some res Cons.prems unfold False have "e = e'" by simp
        with Some res Inl generate_throws_only_clock show ?thesis by blast
      next
        case (Inr categoryId)
        with Some res Cons.prems unfold False Cons.IH show ?thesis by simp
      qed
    qed
  qed
qed


lemma slugRetryLoop_run:
  assumes "j \<le> maxSlugAttempts" and "a \<le> j"
    and "\<forall>i. a \<le> i \<and> i < j \<longrightarrow> ex (length c0 + i) (candidate sl clk t (k0 + i))"
    and "j < maxSlugAttempts \<longrightarrow> \<not> ex (length c0 + j) (candidate sl clk t (k0 + j))"
  shows "slugRetryLoop ex sl clk t (candidate sl clk t (k0 + a)) a (Suc (k0 + a))
           (c0 @ map (\<lambda>i. candidate sl clk t (k0 + i)) [0..<a]) =
         (candidate sl clk t (k0 + j), j, Suc (k0 + j),
          c0 @ map (\<lambda>i. candidate sl clk t (k0 + i)) [0..<Suc j])"
  using assms(2,3)
proof (induction "j - a" arbitrary: a)
  case 0
  then have "a = j" by simp
  have "\<not> ex (length c0 + j) (candidate sl clk t (k0 + j)) \<or> maxSlugAttempts \<le> j"
    using assms(1,4) by auto
  then show ?case
    unfolding \<open>a = j\<close> by (subst slugRetryLoop_exit) simp_all
next
  case (Suc d)
  then have lt: "a < j" by simp
  with assms(1) have "a < maxSlugAttempts" by simp
  moreover from Suc.prems lt have "ex (length c0 + a) (candidate sl clk t (k0 + a))" by simp
  ultimately have "slugRetryLoop ex sl clk t (candidate sl clk t (k0 + a)) a (Suc (k0 + a))
           (c0 @ map (\<lambda>i. candidate sl clk t (k0 + i)) [0..<a]) =
      slugRetryLoop ex sl clk t (candidate sl clk t (k0 + Suc a)) (Suc a) (Suc (k0 + Suc a))
           (c0 @ map (\<lambda>i. candidate sl clk t (k0 + i)) [0..<Suc a])"
    by (subst slugRetryLoop_retry) simp_all
  also have "\<dots> = (candidate sl clk t (k0 + j), j, Suc (k0 + j),
          c0 @ map (\<lambda>i. candidate sl clk t (k0 + i)) [0..<Suc j])"
  proof (rule Suc.hyps(1))
    show "d = j - Suc a" using Suc.hyps(2) by simp
    show "Suc a \<le> j" using lt by simp
    show "\<forall>i. Suc a \<le> i \<and> i < j \<longrightarrow> ex (length c0 + i) (candidate sl clk t (k0 + i))"
      using Suc.prems(2) by simp
  qed
  finally show ?case .
qed

lemma slugRetryLoop_from_start:
  assumes "j \<le> maxSlugAttempts"
    and "\<forall>i < j. ex (length c0 + i) (candidate sl clk t (k0 + i))"
    and "j < maxSlugAttempts \<longrightarrow> \<not> ex (length c0 + j) (candidate sl clk t (k0 + j))"
  shows "slugRetryLoop ex sl clk t (candidate sl clk t k0) 0 (Suc k0) c0 =
         (candidate sl clk t (k0 + j), j, Suc (k0 + j),
          c0 @ map (\<lambda>i. candidate sl clk t (k0 + i)) [0..<Suc j])"
  using slugRetryLoop_run [of j 0 ex c0 sl clk t k0] assms by simp

lemma categoryLoop_skip:
  assumes "\<forall>i < maxSlugAttempts.
      ex (length (checked w) + i) (candidate sl clk t (clock_pos w + i))"
  shows "categoryLoop ex sl clk site data (t # ts) acc w =
     categoryLoop ex sl clk site data ts acc
       (w\<lparr>clock_pos := Suc (clock_pos w + maxSlugAttempts),
          checked := checked w @
            map (\<lambda>i. candidate sl clk t (clock_pos w + i)) [0..<Suc maxSlugAttempts],
          console := console w @ [skip_warning t]\<rparr>)"
proof -
  have "slugRetryLoop ex sl clk t (candidate sl clk t (clock_pos w)) 0 (Suc (clock_pos w))
      (checked w) =
     (candidate sl clk t (clock_pos w + maxSlugAttempts), maxSlugAttempts,
      Suc (clock_pos w + maxSlugAttempts),
      checked w @ map (\<lambda>i. candidate sl clk t (clock_pos w + i)) [0..<Suc maxSlugAttempts])"
    using assms by (intro slugRetryLoop_from_start) simp_all
  from categoryLoop_Cons [OF this] show ?thesis by simp
qed

lemma categoryLoop_create:
  assumes "j < maxSlugAttempts"
    and "\<forall>i < j. ex (length (checked w) + i) (candidate sl clk t (clock_pos w + i))"
    and "\<not> ex (length (checked w) + j) (candidate sl clk t (clock_pos w + j))"
  shows "categoryLoop ex sl clk site data (t # ts) acc w =
     (case generate clk (generator w) (Suc (clock_pos w + j)) of
        None \<Rightarrow> None
      | Some (Inl e, g, k2) \<Rightarrow>
          Some (Inl e,
            w\<lparr>generator := g, clock_pos := k2,
              checked := checked w @
                map (\<lambda>i. candidate sl clk t (clock_pos w + i)) [0..<Suc j]\<rparr>)
      | Some (Inr categoryId, g, k2) \<Rightarrow>
          categoryLoop ex sl clk site data ts
            (acc @
               [\<lparr>cat_id = categoryId, cat_site_id = site, cat_title = t,
                 cat_slug = candidate sl clk t (clock_pos w + j),
                 cat_title_selector = trim (title_selector data),
                 cat_link_selector = trim (link_selector data)\<rparr>])
            (w\<lparr>generator := g, clock_pos := k2,
               checked := checked w @
                 map (\<lambda>i. candidate sl clk t (clock_pos w + i)) [0..<Suc j]\<rparr>))"
proof -
  have "slugRetryLoop ex sl clk t (candidate sl clk t (clock_pos w)) 0 (Suc (clock_pos w))
      (checked w) =
     (candidate sl clk t (clock_pos w + j), j, Suc (clock_pos w + j),
      checked w @ map (\<lambda>i. candidate sl clk t (clock_pos w + i)) [0..<Suc j])"
    using assms by (intro slugRetryLoop_from_start) simp_all
  from categoryLoop_Cons [OF this] assms(1) show ?thesis by simp
qed

lemma categoryLoop_all_skipped:
  assumes "categoryLoop ex sl clk site data titles acc w = Some (Inr batch, w')"
    and "length batch = length acc"
  shows "console w' = console w @ map skip_warning titles"
  using assms
proof (induction titles arbitrary: w)
  case Nil
  then show ?case by simp
next
  case (Cons t ts)
  obtain s a k1 c1 where loop:
    "slugRetryLoop ex sl clk t (candidate sl clk t (clock_pos w)) 0 (Suc (clock_pos w))
      (checked w) = (s, a, k1, c1)"
    by (metis prod_cases4)
  note unfold = categoryLoop_Cons [OF loop, of site data ts acc]
  show ?case
  proof (cases "maxSlugAttempts \<le> a")
    case True
    let ?w1 = "w\<lparr>clock_pos := k1, checked := c1, console := console w @ [skip_warning t]\<rparr>"
    from Cons.prems(1) unfold True
    have "categoryLoop ex sl clk site data ts acc ?w1 = Some (Inr batch, w')" by simp
    from Cons.IH [OF this Cons.prems(2)] show ?thesis by simp
  next
    case False
    with Cons.prems(1) unfold obtain categoryId g k2 where
      gen: "generate clk (generator w) k1 = Some (Inr categoryId, g, k2)"
      by (auto split: option.splits sum.splits)
    let ?cat = "\<lparr>cat_id = categoryId, cat_site_id = site, cat_title = t,
                    cat_slug = s, cat_title_selector = trim (title_selector data),
                    cat_link_selector = trim (link_selector data)\<rparr>"
    let ?w2 = "w\<lparr>generator := g, clock_pos := k2, checked := c1\<rparr>"
    from Cons.prems(1) unfold False gen
    have "categoryLoop ex sl clk site data ts (acc @ [?cat]) ?w2 = Some (Inr batch, w')" by simp
    from categoryLoop_result [OF this] obtain new where "batch = (acc @ [?cat]) @ new"
      by blast
    with Cons.prems(2) show ?thesis by simp
  qed
qed


section \<open>Claims on slug resolution\<close>

text \<open>
  Claim C3. In the slug resolution of \<^verbatim>\<open>initializeCrawl\<close> (with \<^verbatim>\<open>slugExists\<close>) and
  of \<^verbatim>\<open>modifyCrawl\<close> (with \<^verbatim>\<open>slugExistsExcludingId\<close>): when the existence check
  answers true for the first four candidates and false for the fifth, the resolution
  returns the fifth candidate; when it answers true for the first five candidates, the
  resolution throws the slug-exhaustion error and returns no slug.
\<close>

theorem resolve_five_candidates:
  "(ex (length c) (candidate sl clk title k) \<and>
    ex (length c + 1) (candidate sl clk title (k + 1)) \<and>
    ex (length c + 2) (candidate sl clk title (k + 2)) \<and>
    ex (length c + 3) (candidate sl clk title (k + 3)) \<and>
    \<not> ex (length c + 4) (candidate sl clk title (k + 4)) \<longrightarrow>
      fst (resolveUniqueSlug ex sl clk title k c) = Inr (candidate sl clk title (k + 4))) \<and>
   (ex (length c) (candidate sl clk title k) \<and>
    ex (length c + 1) (candidate sl clk title (k + 1)) \<and>
    ex (length c + 2) (candidate sl clk title (k + 2)) \<and>
    ex (length c + 3) (candidate sl clk title (k + 3)) \<and>
    ex (length c + 4) (candidate sl clk title (k + 4)) \<longrightarrow>
      fst (resolveUniqueSlug ex sl clk title k c) = Inl SlugExhausted)"
  by (simp add: resolve_fifth_attempt resolve_exhausted)

theorem resolve_five_candidates_witness:
  "fst (resolveUniqueSlug (\<lambda>n s. n < 4) slugify_package (\<lambda>k. 1609459200010 + int k)
         ''Example Site'' 0 []) = Inr ''example-site-kjdigaoe'' \<and>
   fst (resolveUniqueSlug (\<lambda>n s. n < 5) slugify_package (\<lambda>k. 1609459200010 + int k)
         ''Example Site'' 0 []) = Inl SlugExhausted"
proof -
  have c: "candidate slugify_package (\<lambda>k. 1609459200010 + int k) ''Example Site'' 4 =
      ''example-site-kjdigaoe''"
    by code_simp
  from resolve_five_candidates
    [of "\<lambda>n s. n < 4" "[]" slugify_package "\<lambda>k. 1609459200010 + int k" "''Example Site''" 0]
  have 1: "fst (resolveUniqueSlug (\<lambda>n s. n < 4) slugify_package (\<lambda>k. 1609459200010 + int k)
         ''Example Site'' 0 []) = Inr ''example-site-kjdigaoe''"
    by (simp add: c)
  from resolve_five_candidates
    [of "\<lambda>n s. n < 5" "[]" slugify_package "\<lambda>k. 1609459200010 + int k" "''Example Site''" 0]
  have 2: "fst (resolveUniqueSlug (\<lambda>n s. n < 5) slugify_package (\<lambda>k. 1609459200010 + int k)
         ''Example Site'' 0 []) = Inl SlugExhausted"
    by simp
  show ?thesis by (rule conjI [OF 1 2])
qed

text \<open>
  Claim C4 bounds the existence round-trips of one resolution by 5. The code makes a
  sixth one when the first five answer true: the loop condition awaits the store before
  it tests \<^verbatim>\<open>slugAttempts < maxSlugAttempts\<close>, so after the fifth regeneration the
  sixth candidate is still looked up, and its answer is dropped, since the counter has
  reached the maximum and the method throws in either case. Below, for the title
  "Example Site": a clock that stays on one millisecond during the resolution and a
  store that holds the one slug of that millisecond (six round-trips for the same
  slug); and a clock that advances with a store that holds the first five candidates
  only (the sixth round-trip answers false and the method throws all the same).
  \<open>resolveUniqueSlug_checks\<close> shows that six is the bound.
\<close>

theorem sixth_round_trip:
  "resolveUniqueSlug (\<lambda>n s. s = ''example-site-kjdigaoa'') slugify_package
     (\<lambda>k. 1609459200010) ''Example Site'' 0 [] =
   (Inl SlugExhausted, 6,
    [''example-site-kjdigaoa'', ''example-site-kjdigaoa'', ''example-site-kjdigaoa'',
     ''example-site-kjdigaoa'', ''example-site-kjdigaoa'', ''example-site-kjdigaoa'']) \<and>
   length (snd (snd (resolveUniqueSlug (\<lambda>n s. s = ''example-site-kjdigaoa'') slugify_package
     (\<lambda>k. 1609459200010) ''Example Site'' 0 []))) = 6 \<and>
   resolveUniqueSlug (\<lambda>n s. n < 5) slugify_package (\<lambda>k. 1609459200010 + int k)
     ''Example Site'' 0 [] =
   (Inl SlugExhausted, 6,
    [''example-site-kjdigaoa'', ''example-site-kjdigaob'', ''example-site-kjdigaoc'',
     ''example-site-kjdigaod'', ''example-site-kjdigaoe'', ''example-site-kjdigaof'']) \<and>
   \<not> (\<lambda>(n :: nat) (s :: string). n < 5) 5 ''example-site-kjdigaof''"
  by code_simp

text \<open>
  Claim C10. \<^verbatim>\<open>generateUniqueSlug\<close> returns the transform of the title, a hyphen and
  the base-36 digits of the current millisecond (for every title, also one whose
  transform is empty); for "Example Site" that is a string beginning with
  \<^verbatim>\<open>example-site-\<close>; and when the store answers false for the first candidate (as an
  empty store does), the resolution returns that candidate after one round-trip.
\<close>

theorem unique_slug_form:
  "generateUniqueSlug sl clk k title = (sl title @ ''-'' @ toString 36 (clk k), Suc k) \<and>
   fst (generateUniqueSlug slugify_package clk k ''Example Site'') =
     ''example-site-'' @ toString 36 (clk k) \<and>
   (\<not> ex (length c) (fst (generateUniqueSlug sl clk k title)) \<longrightarrow>
      resolveUniqueSlug ex sl clk title k c =
        (Inr (fst (generateUniqueSlug sl clk k title)), Suc k,
         c @ [fst (generateUniqueSlug sl clk k title)]))"
proof (intro conjI impI)
  show "generateUniqueSlug sl clk k title = (sl title @ ''-'' @ toString 36 (clk k), Suc k)"
    by (rule generateUniqueSlug_eq)
  show "fst (generateUniqueSlug slugify_package clk k ''Example Site'') =
     ''example-site-'' @ toString 36 (clk k)"
    by (simp add: generateUniqueSlug_eq slugify_package_example)
  assume "\<not> ex (length c) (fst (generateUniqueSlug sl clk k title))"
  then have "\<not> ex (length c) (candidate sl clk title k)"
    by (simp add: candidate_def)
  from resolve_first_candidate [of ex c sl clk title k] this
  show "resolveUniqueSlug ex sl clk title k c =
        (Inr (fst (generateUniqueSlug sl clk k title)), Suc k,
         c @ [fst (generateUniqueSlug sl clk k title)])"
    by (simp add: candidate_def)
qed

theorem unique_slug_form_witness:
  "generateUniqueSlug slugify_package (\<lambda>k. 1609459200010) 0 ''Example Site'' =
     (''example-site-kjdigaoa'', Suc 0) \<and>
   resolveUniqueSlug (\<lambda>n s. False) slugify_package (\<lambda>k. 1609459200010) ''Example Site'' 0 [] =
     (Inr ''example-site-kjdigaoa'', Suc 0, [''example-site-kjdigaoa''])"
proof -
  have t: "toString 36 1609459200010 = ''kjdigaoa''"
    by code_simp
  note u = unique_slug_form
    [of slugify_package "\<lambda>k. 1609459200010" 0 "''Example Site''" "\<lambda>n s. False" "[]"]
  from u have 1: "generateUniqueSlug slugify_package (\<lambda>k. 1609459200010) 0 ''Example Site'' =
     (''example-site-kjdigaoa'', Suc 0)"
    by (simp add: t slugify_package_example)
  from u 1 have 2: "resolveUniqueSlug (\<lambda>n s. False) slugify_package (\<lambda>k. 1609459200010)
      ''Example Site'' 0 [] = (Inr ''example-site-kjdigaoa'', Suc 0, [''example-site-kjdigaoa''])"
    by simp
  show ?thesis by (rule conjI [OF 1 2])
qed

text \<open>
  Claim C5 says that every exhaustion of the retry budget is returned to the caller as
  an error and never logged and swallowed. In \<^verbatim>\<open>crawlCategory\<close> it is swallowed: with
  a store that has every slug of "News", the resolution of "News" alone ends in the
  exhaustion error, while \<^verbatim>\<open>crawlCategory\<close> on the titles "News" and "Sports" writes
  the warning for "News", skips it and returns a response with one category created.
\<close>

theorem exhaustion_swallowed_counterexample:
  "fst (resolveUniqueSlug (\<lambda>n s. take 5 s = ''news-'') slugify_package
          (\<lambda>k. 1700000000000 + int k) ''News'' 0 []) = Inl SlugExhausted \<and>
   crawlCategory (\<lambda>n s. take 5 s = ''news-'') Inr slugify_package
     (\<lambda>k. 1700000000000 + int k) ''7''
     \<lparr>title_selector = '' a.nav '', link_selector = ''a[href]''\<rparr> [''News'', ''Sports'']
     \<lparr>generator = \<lparr>sequence = 0, lastTimestamp = - 1, datacenterId = 1, workerId = 1\<rparr>,
      clock_pos = 0, checked = [], console = []\<rparr> =
   Some (Inr \<lparr>site_id = ''7'', total_created = 1,
               categories =
                 [\<lparr>dto_id = ''379755639632695296'', dto_title = ''Sports'',
                   dto_slug = ''sports-loyw3v2e'', dto_title_selector = ''a.nav'',
                   dto_link_selector = ''a[href]''\<rparr>]\<rparr>,
         \<lparr>generator =
            \<lparr>sequence = 0, lastTimestamp = 1700000000007, datacenterId = 1, workerId = 1\<rparr>,
          clock_pos = 8,
          checked =
            [''news-loyw3v28'', ''news-loyw3v29'', ''news-loyw3v2a'', ''news-loyw3v2b'',
             ''news-loyw3v2c'', ''news-loyw3v2d'', ''sports-loyw3v2e''],
          console = [skip_warning ''News'']\<rparr>)"
  by code_simp

text \<open>
  Claim C5, amended. The slug resolution of \<^verbatim>\<open>initializeCrawl\<close>, \<^verbatim>\<open>modifyCrawl\<close> and
  \<^verbatim>\<open>updateCategory\<close> either throws the exhaustion error to its caller or returns a slug
  whose last existence check answered false. In the loop of \<^verbatim>\<open>crawlCategory\<close> over the
  titles, a title whose retry budget is used up (the store answers true for its first
  \<open>maxSlugAttempts\<close> candidates) is no error: the loop writes the warning for it on the
  console, creates no category for it and goes on with the remaining titles, so that
  \<^verbatim>\<open>crawlCategory\<close> on the title and the remaining titles is \<^verbatim>\<open>crawlCategory\<close> on the
  remaining titles after the warning. A title whose candidate number \<open>j\<close> (below
  \<open>maxSlugAttempts\<close>) is the first with the answer false gets no warning: when
  \<^verbatim>\<open>generate\<close> returns an identifier, a category with this title, this candidate as
  slug and this identifier is added and the loop goes on with the remaining titles.
  \<^verbatim>\<open>crawlCategory\<close> never throws the exhaustion error; it throws 'Failed to generate
  slugs for any category' only with the console holding the warning of every title, in
  their order; when it returns, the warnings and the categories handed to
  \<^verbatim>\<open>createBatch\<close> together are as many as the titles, and every slug handed over got
  the answer false from an existence check of this call.
\<close>

theorem slug_exhaustion_by_design:
  "(\<forall>r k' c'. resolveUniqueSlug ex sl clk title k c = (r, k', c') \<longrightarrow>
      (case r of
         Inl e \<Rightarrow> e = SlugExhausted
       | Inr s \<Rightarrow> last c' = s \<and> \<not> ex (length c' - 1) s)) \<and>
   ((\<forall>i < maxSlugAttempts.
        ex (length (checked w) + i) (candidate sl clk title (clock_pos w + i))) \<longrightarrow>
      categoryLoop ex sl clk site data (title # titles) acc w =
        categoryLoop ex sl clk site data titles acc
          (w\<lparr>clock_pos := Suc (clock_pos w + maxSlugAttempts),
             checked := checked w @
               map (\<lambda>i. candidate sl clk title (clock_pos w + i)) [0..<Suc maxSlugAttempts],
             console := console w @ [skip_warning title]\<rparr>)) \<and>
   ((\<forall>i < maxSlugAttempts.
        ex (length (checked w) + i) (candidate sl clk title (clock_pos w + i))) \<longrightarrow>
      crawlCategory ex createBatch sl clk site data (title # titles) w =
        crawlCategory ex createBatch sl clk site data titles
          (w\<lparr>clock_pos := Suc (clock_pos w + maxSlugAttempts),
             checked := checked w @
               map (\<lambda>i. candidate sl clk title (clock_pos w + i)) [0..<Suc maxSlugAttempts],
             console := console w @ [skip_warning title]\<rparr>)) \<and>
   (j < maxSlugAttempts \<and>
    (\<forall>i < j. ex (length (checked w) + i) (candidate sl clk title (clock_pos w + i))) \<and>
    \<not> ex (length (checked w) + j) (candidate sl clk title (clock_pos w + j)) \<longrightarrow>
      categoryLoop ex sl clk site data (title # titles) acc w =
        (case generate clk (generator w) (Suc (clock_pos w + j)) of
           None \<Rightarrow> None
         | Some (Inl e, g, k2) \<Rightarrow>
             Some (Inl e,
               w\<lparr>generator := g, clock_pos := k2,
                 checked := checked w @
                   map (\<lambda>i. candidate sl clk title (clock_pos w + i)) [0..<Suc j]\<rparr>)
         | Some (Inr categoryId, g, k2) \<Rightarrow>
             categoryLoop ex sl clk site data titles
               (acc @
                  [\<lparr>cat_id = categoryId, cat_site_id = site, cat_title = title,
                    cat_slug = candidate sl clk title (clock_pos w + j),
                    cat_title_selector = trim (title_selector data),
                    cat_link_selector = trim (link_selector data)\<rparr>])
               (w\<lparr>generator := g, clock_pos := k2,
                  checked := checked w @
                    map (\<lambda>i. candidate sl clk title (clock_pos w + i)) [0..<Suc j]\<rparr>))) \<and>
   (\<forall>r w'. crawlCategory ex createBatch sl clk site data titles w = Some (r, w') \<longrightarrow>
      (case r of
         Inl e \<Rightarrow>
           e \<noteq> SlugExhausted \<and>
           (e = NoCategorySlug \<longrightarrow> console w' = console w @ map skip_warning titles)
       | Inr resp \<Rightarrow>
           (\<exists>batch created lines.
              createBatch batch = Inr created \<and> batch \<noteq> [] \<and>
              resp = \<lparr>site_id = site, total_created = length created,
                      categories = map to_response_dto created\<rparr> \<and>
              console w' = console w @ lines \<and>
              set lines \<subseteq> skip_warning ` set titles \<and>
              length batch + length lines = length titles \<and>
              (\<forall>cat \<in> set batch. cat_title cat \<in> set titles \<and>
                 (\<exists>n < length (checked w'). checked w' ! n = cat_slug cat \<and>
                    \<not> ex n (cat_slug cat))))))"
  (is "?A \<and> ?B \<and> ?B' \<and> ?C \<and> ?D")
proof (intro conjI)
  show ?A
    by (intro allI impI) (rule resolveUniqueSlug_outcome)
  show ?B
    by (intro impI) (rule categoryLoop_skip)
  show ?B'
    by (intro impI) (simp only: crawlCategory_def categoryLoop_skip)
  show ?C
    by (intro impI, elim conjE) (rule categoryLoop_create)
  show ?D
  proof (intro allI impI)
    fix r w'
    assume run: "crawlCategory ex createBatch sl clk site data titles w = Some (r, w')"
    then obtain lr w1 where loop: "categoryLoop ex sl clk site data titles [] w = Some (lr, w1)"
      by (auto simp: crawlCategory_def split: option.splits)
    show "case r of
         Inl e \<Rightarrow>
           e \<noteq> SlugExhausted \<and>
           (e = NoCategorySlug \<longrightarrow> console w' = console w @ map skip_warning titles)
       | Inr resp \<Rightarrow>
           (\<exists>batch created lines.
              createBatch batch = Inr created \<and> batch \<noteq> [] \<and>
              resp = \<lparr>site_id = site, total_created = length created,
                      categories = map to_response_dto created\<rparr> \<and>
              console w' = console w @ lines \<and>
              set lines \<subseteq> skip_warning ` set titles \<and>
              length batch + length lines = length titles \<and>
              (\<forall>cat \<in> set batch. cat_title cat \<in> set titles \<and>
                 (\<exists>n < length (checked w'). checked w' ! n = cat_slug cat \<and>
                    \<not> ex n (cat_slug cat))))"
    proof (cases lr)
      case (Inl e)
      with loop have "e = ClockMovedBackwards" by (simp add: categoryLoop_Inl)
      with run loop Inl have "r = Inl ClockMovedBackwards"
        by (auto simp: crawlCategory_def)
      then show ?thesis by simp
    next
      case (Inr batch)
      from categoryLoop_result [OF loop [unfolded Inr]] obtain lines where
        res: "console w1 = console w @ lines" "length batch + length lines = length titles"
          "set lines \<subseteq> skip_warning ` set titles"
          "\<forall>cat \<in> set batch. cat_title cat \<in> set titles \<and>
             (\<exists>n < length (checked w1). checked w1 ! n = cat_slug cat \<and> \<not> ex n (cat_slug cat))"
        by auto
      show ?thesis
      proof (cases "batch = []")
        case True
        with run loop Inr have r: "r = Inl NoCategorySlug" "w' = w1"
          by (simp_all add: crawlCategory_def)
        from categoryLoop_all_skipped [OF loop [unfolded Inr]] True
        have "console w1 = console w @ map skip_warning titles" by simp
        with r show ?thesis by simp
      next
        case False
        show ?thesis
        proof (cases "createBatch batch")
          case (Inl se)
          with run loop Inr False have "r = Inl (StoreError se)"
            by (simp add: crawlCategory_def)
          then show ?thesis by simp
        next
          case created: (Inr created)
          with run loop Inr False have "r = Inr \<lparr>site_id = site, total_created = length created,
              categories = map to_response_dto created\<rparr>" "w' = w1"
            by (simp_all add: crawlCategory_def)
          with res False created show ?thesis by auto
        qed
      qed
    qed
  qed
qed

theorem slug_exhaustion_by_design_witness:
  "resolveUniqueSlug (\<lambda>n s. take 5 s = ''news-'') slugify_package (\<lambda>k. 1700000000000 + int k) ''Sports'' 0 [] =
     (Inr ''sports-loyw3v28'', 1, [''sports-loyw3v28'']) \<and>
   last [''sports-loyw3v28''] = ''sports-loyw3v28'' \<and>
   \<not> (\<lambda>n s. take 5 s = ''news-'') (length [''sports-loyw3v28''] - 1) ''sports-loyw3v28'' \<and>
   categoryLoop (\<lambda>n s. take 5 s = ''news-'') slugify_package (\<lambda>k. 1700000000000 + int k) ''7'' \<lparr>title_selector = '' a.nav '', link_selector = ''a[href]''\<rparr> (''News'' # [''Sports'']) [] (\<lparr>generator = \<lparr>sequence = 0, lastTimestamp = - 1, datacenterId = 1, workerId = 1\<rparr>, clock_pos = 0, checked = [], console = []\<rparr>) =
     categoryLoop (\<lambda>n s. take 5 s = ''news-'') slugify_package (\<lambda>k. 1700000000000 + int k) ''7'' \<lparr>title_selector = '' a.nav '', link_selector = ''a[href]''\<rparr> [''Sports''] []
       ((\<lparr>generator = \<lparr>sequence = 0, lastTimestamp = - 1, datacenterId = 1, workerId = 1\<rparr>, clock_pos = 0, checked = [], console = []\<rparr>)\<lparr>clock_pos := Suc (clock_pos (\<lparr>generator = \<lparr>sequence = 0, lastTimestamp = - 1, datacenterId = 1, workerId = 1\<rparr>, clock_pos = 0, checked = [], console = []\<rparr>) + maxSlugAttempts),
          checked := checked (\<lparr>generator = \<lparr>sequence = 0, lastTimestamp = - 1, datacenterId = 1, workerId = 1\<rparr>, clock_pos = 0, checked = [], console = []\<rparr>) @
            map (\<lambda>i. candidate slugify_package (\<lambda>k. 1700000000000 + int k) ''News'' (clock_pos (\<lparr>generator = \<lparr>sequence = 0, lastTimestamp = - 1, datacenterId = 1, workerId = 1\<rparr>, clock_pos = 0, checked = [], console = []\<rparr>) + i))
              [0..<Suc maxSlugAttempts],
          console := console (\<lparr>generator = \<lparr>sequence = 0, lastTimestamp = - 1, datacenterId = 1, workerId = 1\<rparr>, clock_pos = 0, checked = [], console = []\<rparr>) @ [skip_warning ''News'']\<rparr>) \<and>
   crawlCategory (\<lambda>n s. take 5 s = ''news-'') Inr slugify_package (\<lambda>k. 1700000000000 + int k) ''7'' \<lparr>title_selector = '' a.nav '', link_selector = ''a[href]''\<rparr> (''News'' # [''Sports'']) (\<lparr>generator = \<lparr>sequence = 0, lastTimestamp = - 1, datacenterId = 1, workerId = 1\<rparr>, clock_pos = 0, checked = [], console = []\<rparr>) =
     crawlCategory (\<lambda>n s. take 5 s = ''news-'') Inr slugify_package (\<lambda>k. 1700000000000 + int k) ''7'' \<lparr>title_selector = '' a.nav '', link_selector = ''a[href]''\<rparr> [''Sports'']
       ((\<lparr>generator = \<lparr>sequence = 0, lastTimestamp = - 1, datacenterId = 1, workerId = 1\<rparr>, clock_pos = 0, checked = [], console = []\<rparr>)\<lparr>clock_pos := Suc (clock_pos (\<lparr>generator = \<lparr>sequence = 0, lastTimestamp = - 1, datacenterId = 1, workerId = 1\<rparr>, clock_pos = 0, checked = [], console = []\<rparr>) + maxSlugAttempts),
          checked := checked (\<lparr>generator = \<lparr>sequence = 0, lastTimestamp = - 1, datacenterId = 1, workerId = 1\<rparr>, clock_pos = 0, checked = [], console = []\<rparr>) @
            map (\<lambda>i. candidate slugify_package (\<lambda>k. 1700000000000 + int k) ''News'' (clock_pos (\<lparr>generator = \<lparr>sequence = 0, lastTimestamp = - 1, datacenterId = 1, workerId = 1\<rparr>, clock_pos = 0, checked = [], console = []\<rparr>) + i))
              [0..<Suc maxSlugAttempts],
          console := console (\<lparr>generator = \<lparr>sequence = 0, lastTimestamp = - 1, datacenterId = 1, workerId = 1\<rparr>, clock_pos = 0, checked = [], console = []\<rparr>) @ [skip_warning ''News'']\<rparr>) \<and>
   categoryLoop (\<lambda>n s. take 5 s = ''news-'') slugify_package (\<lambda>k. 1700000000000 + int k) ''7'' \<lparr>title_selector = '' a.nav '', link_selector = ''a[href]''\<rparr> (''Sports'' # [''News'']) [] (\<lparr>generator = \<lparr>sequence = 0, lastTimestamp = - 1, datacenterId = 1, workerId = 1\<rparr>, clock_pos = 0, checked = [], console = []\<rparr>) =
     (case generate (\<lambda>k. 1700000000000 + int k) (generator (\<lparr>generator = \<lparr>sequence = 0, lastTimestamp = - 1, datacenterId = 1, workerId = 1\<rparr>, clock_pos = 0, checked = [], console = []\<rparr>)) (Suc (clock_pos (\<lparr>generator = \<lparr>sequence = 0, lastTimestamp = - 1, datacenterId = 1, workerId = 1\<rparr>, clock_pos = 0, checked = [], console = []\<rparr>) + 0)) of
        None \<Rightarrow> None
      | Some (Inl e, g, k2) \<Rightarrow>
          Some (Inl e,
            (\<lparr>generator = \<lparr>sequence = 0, lastTimestamp = - 1, datacenterId = 1, workerId = 1\<rparr>, clock_pos = 0, checked = [], console = []\<rparr>)\<lparr>generator := g, clock_pos := k2,
              checked := checked (\<lparr>generator = \<lparr>sequence = 0, lastTimestamp = - 1, datacenterId = 1, workerId = 1\<rparr>, clock_pos = 0, checked = [], console = []\<rparr>) @
                map (\<lambda>i. candidate slugify_package (\<lambda>k. 1700000000000 + int k) ''Sports'' (clock_pos (\<lparr>generator = \<lparr>sequence = 0, lastTimestamp = - 1, datacenterId = 1, workerId = 1\<rparr>, clock_pos = 0, checked = [], console = []\<rparr>) + i))
                  [0..<Suc 0]\<rparr>)
      | Some (Inr categoryId, g, k2) \<Rightarrow>
          categoryLoop (\<lambda>n s. take 5 s = ''news-'') slugify_package (\<lambda>k. 1700000000000 + int k) ''7'' \<lparr>title_selector = '' a.nav '', link_selector = ''a[href]''\<rparr> [''News'']
            ([] @
               [\<lparr>cat_id = categoryId, cat_site_id = ''7'', cat_title = ''Sports'',
                 cat_slug = candidate slugify_package (\<lambda>k. 1700000000000 + int k) ''Sports'' (clock_pos (\<lparr>generator = \<lparr>sequence = 0, lastTimestamp = - 1, datacenterId = 1, workerId = 1\<rparr>, clock_pos = 0, checked = [], console = []\<rparr>) + 0),
                 cat_title_selector = trim (title_selector \<lparr>title_selector = '' a.nav '', link_selector = ''a[href]''\<rparr>),
                 cat_link_selector = trim (link_selector \<lparr>title_selector = '' a.nav '', link_selector = ''a[href]''\<rparr>)\<rparr>])
            ((\<lparr>generator = \<lparr>sequence = 0, lastTimestamp = - 1, datacenterId = 1, workerId = 1\<rparr>, clock_pos = 0, checked = [], console = []\<rparr>)\<lparr>generator := g, clock_pos := k2,
               checked := checked (\<lparr>generator = \<lparr>sequence = 0, lastTimestamp = - 1, datacenterId = 1, workerId = 1\<rparr>, clock_pos = 0, checked = [], console = []\<rparr>) @
                 map (\<lambda>i. candidate slugify_package (\<lambda>k. 1700000000000 + int k) ''Sports'' (clock_pos (\<lparr>generator = \<lparr>sequence = 0, lastTimestamp = - 1, datacenterId = 1, workerId = 1\<rparr>, clock_pos = 0, checked = [], console = []\<rparr>) + i))
                   [0..<Suc 0]\<rparr>)) \<and>
   crawlCategory (\<lambda>n s. take 5 s = ''news-'') Inr slugify_package (\<lambda>k. 1700000000000 + int k) ''7'' \<lparr>title_selector = '' a.nav '', link_selector = ''a[href]''\<rparr> [''News''] \<lparr>generator = \<lparr>sequence = 0, lastTimestamp = - 1, datacenterId = 1, workerId = 1\<rparr>, clock_pos = 0, checked = [], console = []\<rparr> =
   Some (Inl NoCategorySlug,
         \<lparr>generator = \<lparr>sequence = 0, lastTimestamp = - 1, datacenterId = 1, workerId = 1\<rparr>, clock_pos = 6,
          checked =
            [''news-loyw3v28'', ''news-loyw3v29'', ''news-loyw3v2a'', ''news-loyw3v2b'',
             ''news-loyw3v2c'', ''news-loyw3v2d''],
          console = [skip_warning ''News'']\<rparr>) \<and>
   [skip_warning ''News''] = [] @ map skip_warning [''News''] \<and>
   crawlCategory (\<lambda>n s. take 5 s = ''news-'') Inr slugify_package (\<lambda>k. 1700000000000 + int k) ''7'' \<lparr>title_selector = '' a.nav '', link_selector = ''a[href]''\<rparr> [''Sports'', ''News''] \<lparr>generator = \<lparr>sequence = 0, lastTimestamp = - 1, datacenterId = 1, workerId = 1\<rparr>, clock_pos = 0, checked = [], console = []\<rparr> =
   Some (Inr \<lparr>site_id = ''7'', total_created = 1,
               categories =
                 [\<lparr>dto_id = ''379755639607529472'', dto_title = ''Sports'',
                   dto_slug = ''sports-loyw3v28'', dto_title_selector = ''a.nav'',
                   dto_link_selector = ''a[href]''\<rparr>]\<rparr>,
         \<lparr>generator =
            \<lparr>sequence = 0, lastTimestamp = 1700000000001, datacenterId = 1, workerId = 1\<rparr>,
          clock_pos = 8,
          checked =
            [''sports-loyw3v28'', ''news-loyw3v2a'', ''news-loyw3v2b'', ''news-loyw3v2c'',
             ''news-loyw3v2d'', ''news-loyw3v2e'', ''news-loyw3v2f''],
          console = [skip_warning ''News'']\<rparr>) \<and>
   (\<exists>batch created lines.
      (Inr batch :: store_error + category list) = Inr created \<and> batch \<noteq> [] \<and>
      [skip_warning ''News''] = [] @ lines \<and>
      length batch + length lines = length [''Sports'', ''News''])"
  (is "?run1 \<and> ?last \<and> ?neg \<and> ?skip \<and> ?skip' \<and> ?create \<and> ?run2 \<and> ?skipped \<and> ?run3 \<and> ?created")
proof -
  have run1: ?run1 by code_simp
  have run2: ?run2 by code_simp
  have run3: ?run3 by code_simp
  have news: "slugify_package ''News'' = ''news''" by code_simp
  have sports: "slugify_package ''Sports'' = ''sports''" by code_simp
  note t = slug_exhaustion_by_design
    [where ex = "\<lambda>n s. take 5 s = ''news-''" and sl = slugify_package and clk = "\<lambda>k. 1700000000000 + int k"
       and title = "''Sports''" and k = 0 and c = "[]" and createBatch = Inr and site = "''7''"
       and data = "\<lparr>title_selector = '' a.nav '', link_selector = ''a[href]''\<rparr>" and titles = "[''News'']"
       and w = "\<lparr>generator = \<lparr>sequence = 0, lastTimestamp = - 1, datacenterId = 1, workerId = 1\<rparr>, clock_pos = 0, checked = [], console = []\<rparr>"]
  note t' = slug_exhaustion_by_design
    [where ex = "\<lambda>n s. take 5 s = ''news-''" and sl = slugify_package and clk = "\<lambda>k. 1700000000000 + int k"
       and title = "''Sports''" and k = 0 and c = "[]" and createBatch = Inr and site = "''7''"
       and data = "\<lparr>title_selector = '' a.nav '', link_selector = ''a[href]''\<rparr>" and titles = "[''Sports'', ''News'']"
       and w = "\<lparr>generator = \<lparr>sequence = 0, lastTimestamp = - 1, datacenterId = 1, workerId = 1\<rparr>, clock_pos = 0, checked = [], console = []\<rparr>"]
  note tB = slug_exhaustion_by_design
    [where ex = "\<lambda>n s. take 5 s = ''news-''" and sl = slugify_package and clk = "\<lambda>k. 1700000000000 + int k"
       and title = "''News''" and site = "''7''" and data = "\<lparr>title_selector = '' a.nav '', link_selector = ''a[href]''\<rparr>" and titles = "[''Sports'']" and acc = "[]"
       and createBatch = Inr and j = 0 and w = "\<lparr>generator = \<lparr>sequence = 0, lastTimestamp = - 1, datacenterId = 1, workerId = 1\<rparr>, clock_pos = 0, checked = [], console = []\<rparr>"]
  note tC = slug_exhaustion_by_design
    [where ex = "\<lambda>n s. take 5 s = ''news-''" and sl = slugify_package and clk = "\<lambda>k. 1700000000000 + int k"
       and title = "''Sports''" and site = "''7''" and data = "\<lparr>title_selector = '' a.nav '', link_selector = ''a[href]''\<rparr>" and titles = "[''News'']" and acc = "[]"
       and createBatch = Inr and j = 0 and w = "\<lparr>generator = \<lparr>sequence = 0, lastTimestamp = - 1, datacenterId = 1, workerId = 1\<rparr>, clock_pos = 0, checked = [], console = []\<rparr>"]
  from t run1 have a: "?last \<and> ?neg"
    by (auto simp del: last.simps take_Cons_numeral)
  have hB: "\<forall>i < maxSlugAttempts.
      (\<lambda>n s. take 5 s = ''news-'') (length (checked (\<lparr>generator = \<lparr>sequence = 0, lastTimestamp = - 1, datacenterId = 1, workerId = 1\<rparr>, clock_pos = 0, checked = [], console = []\<rparr>)) + i)
        (candidate slugify_package (\<lambda>k. 1700000000000 + int k) ''News'' (clock_pos (\<lparr>generator = \<lparr>sequence = 0, lastTimestamp = - 1, datacenterId = 1, workerId = 1\<rparr>, clock_pos = 0, checked = [], console = []\<rparr>) + i))"
    by (simp add: candidate_eq news)
  from tB [THEN conjunct2, THEN conjunct1, THEN mp, OF hB] have b: ?skip .
  from tB [THEN conjunct2, THEN conjunct2, THEN conjunct1, THEN mp, OF hB] have b': ?skip' .
  have hC: "0 < maxSlugAttempts \<and>
      (\<forall>i < 0. (\<lambda>n s. take 5 s = ''news-'') (length (checked (\<lparr>generator = \<lparr>sequence = 0, lastTimestamp = - 1, datacenterId = 1, workerId = 1\<rparr>, clock_pos = 0, checked = [], console = []\<rparr>)) + i)
        (candidate slugify_package (\<lambda>k. 1700000000000 + int k) ''Sports'' (clock_pos (\<lparr>generator = \<lparr>sequence = 0, lastTimestamp = - 1, datacenterId = 1, workerId = 1\<rparr>, clock_pos = 0, checked = [], console = []\<rparr>) + i))) \<and>
      \<not> (\<lambda>n s. take 5 s = ''news-'') (length (checked (\<lparr>generator = \<lparr>sequence = 0, lastTimestamp = - 1, datacenterId = 1, workerId = 1\<rparr>, clock_pos = 0, checked = [], console = []\<rparr>)) + 0)
        (candidate slugify_package (\<lambda>k. 1700000000000 + int k) ''Sports'' (clock_pos (\<lparr>generator = \<lparr>sequence = 0, lastTimestamp = - 1, datacenterId = 1, workerId = 1\<rparr>, clock_pos = 0, checked = [], console = []\<rparr>) + 0))"
    by (simp add: candidate_eq sports maxSlugAttempts_def)
  from tC [THEN conjunct2, THEN conjunct2, THEN conjunct2, THEN conjunct1, THEN mp, OF hC] have c: ?create .
  from t [THEN conjunct2, THEN conjunct2, THEN conjunct2, THEN conjunct2, rule_format, OF run2]
  have d: ?skipped
    by simp
  from t' [THEN conjunct2, THEN conjunct2, THEN conjunct2, THEN conjunct2, rule_format, OF run3]
  have e: ?created
    by (auto simp del: length_Cons)
  from run1 a b b' c run2 d run3 e show ?thesis by blast
qed

end
